theory Spec2Isabelle
  imports Main "HOL-Library.Char_ord" "HOL-Library.List_Lexorder" "HOL-Library.AList"
begin

section \<open>Strings: the character classes and the regular expressions of the source\<close>

text \<open>
  Python strings are modelled as \<^typ>\<open>string\<close>: a character stands for a code point below
  256, and a string of the model is a Python string of such code points. On these code
  points the character classes are those of Python: \<open>\w\<close> is a letter, a digit, another
  numeric character or the underscore; \<open>\s\<close> and \<open>str.strip\<close> take the characters 9 to
  13, 28 to 32, 133 and 160 (the no-break space) as whitespace; \<open>str.lower\<close> moves the
  capital letters, 65 to 90, 192 to 214 and 216 to 222, up by 32.
\<close>

definition is_word :: "char \<Rightarrow> bool" where
  "is_word c =
     (let n = (of_char c :: nat)
      in (48 \<le> n \<and> n \<le> 57) \<or> (65 \<le> n \<and> n \<le> 90) \<or> n = 95 \<or> (97 \<le> n \<and> n \<le> 122)
         \<or> n = 170 \<or> n = 178 \<or> n = 179 \<or> n = 181 \<or> n = 185 \<or> n = 186
         \<or> (188 \<le> n \<and> n \<le> 190) \<or> (192 \<le> n \<and> n \<le> 214) \<or> (216 \<le> n \<and> n \<le> 246)
         \<or> 248 \<le> n)"

definition is_space :: "char \<Rightarrow> bool" where
  "is_space c =
     (let n = (of_char c :: nat)
      in (9 \<le> n \<and> n \<le> 13) \<or> (28 \<le> n \<and> n \<le> 32) \<or> n = 133 \<or> n = 160)"

definition lower_char :: "char \<Rightarrow> char" where
  "lower_char c =
     (let n = (of_char c :: nat)
      in if (65 \<le> n \<and> n \<le> 90) \<or> (192 \<le> n \<and> n \<le> 214) \<or> (216 \<le> n \<and> n \<le> 222)
         then char_of (n + 32) else c)"

definition lower :: "string \<Rightarrow> string" where
  "lower s = map lower_char s"

text \<open>\<open>s.strip()\<close>: whitespace removed at both ends.\<close>

definition strip :: "string \<Rightarrow> string" where
  "strip s = rev (dropWhile is_space (rev (dropWhile is_space s)))"

text \<open>
  \<open>re.findall(r"#(\w+)", s)\<close>: the scan goes left to right; at a \<open>#\<close> followed by a
  word character the longest run of word characters is captured and the scan goes on
  behind it; anywhere else it moves one character on.
\<close>

function findall_hashtags :: "string \<Rightarrow> string list" where
  "findall_hashtags [] = []"
| "findall_hashtags (c # cs) =
     (if c = CHR ''#'' \<and> cs \<noteq> [] \<and> is_word (hd cs)
      then takeWhile is_word cs # findall_hashtags (dropWhile is_word cs)
      else findall_hashtags cs)"
  by pat_completeness auto
termination
  by (relation "measure length") (auto simp: length_dropWhile_le less_Suc_eq_le)

text \<open>\<open>re.sub(r"#\w+", "", s)\<close>: the same scan, the matches left out.\<close>

function sub_hashtags :: "string \<Rightarrow> string" where
  "sub_hashtags [] = []"
| "sub_hashtags (c # cs) =
     (if c = CHR ''#'' \<and> cs \<noteq> [] \<and> is_word (hd cs)
      then sub_hashtags (dropWhile is_word cs)
      else c # sub_hashtags cs)"
  by pat_completeness auto
termination
  by (relation "measure length") (auto simp: length_dropWhile_le less_Suc_eq_le)

text \<open>\<open>re.sub(r"\s+", " ", s)\<close>: every maximal run of whitespace becomes one space.\<close>

function sub_spaces :: "string \<Rightarrow> string" where
  "sub_spaces [] = []"
| "sub_spaces (c # cs) =
     (if is_space c then CHR '' '' # sub_spaces (dropWhile is_space cs)
      else c # sub_spaces cs)"
  by pat_completeness auto
termination
  by (relation "measure length") (auto simp: length_dropWhile_le less_Suc_eq_le)

text \<open>The text that replaces a node holding hashtags when they are not kept.\<close>

definition cleaned_text :: "string \<Rightarrow> string" where
  "cleaned_text s = strip (sub_spaces (sub_hashtags s))"

section \<open>Paths and URL decoding\<close>

text \<open>
  \<open>urllib.parse.unquote\<close>: every \<open>%\<close> followed by two hexadecimal digits becomes the
  character with that code; a \<open>%\<close> that is not followed by two such digits stays. This is
  what urllib does for escapes below \<open>%80\<close>. It reads the escapes from \<open>%80\<close> on as bytes
  of UTF-8 and gives code points that are, but for \<open>%C2\<close> and \<open>%C3\<close> sequences, outside
  the strings modelled here; on such a source the definition keeps the byte as a
  character. The properties proved of the image processing hold for every function in
  the place of this one: they use nothing of it.
\<close>

definition hex_digit :: "char \<Rightarrow> nat option" where
  "hex_digit c =
     (let n = (of_char c :: nat)
      in if 48 \<le> n \<and> n \<le> 57 then Some (n - 48)
         else if 65 \<le> n \<and> n \<le> 70 then Some (n - 55)
         else if 97 \<le> n \<and> n \<le> 102 then Some (n - 87)
         else None)"

fun unquote :: "string \<Rightarrow> string" where
  "unquote [] = []"
| "unquote (c # cs) =
     (if c = CHR ''%'' then
        (case cs of
           a # b # rest \<Rightarrow>
             (case (hex_digit a, hex_digit b) of
                (Some x, Some y) \<Rightarrow> char_of (16 * x + y) # unquote rest
              | _ \<Rightarrow> c # unquote cs)
         | _ \<Rightarrow> c # unquote cs)
      else c # unquote cs)"

text \<open>\<open>os.path.basename\<close> (POSIX): what follows the last slash.\<close>

definition basename :: "string \<Rightarrow> string" where
  "basename p = rev (takeWhile (\<lambda>c. c \<noteq> CHR ''/'') (rev p))"

text \<open>\<open>os.path.join\<close> (POSIX) of two components.\<close>

definition path_join :: "string \<Rightarrow> string \<Rightarrow> string" where
  "path_join a b =
     (if b \<noteq> [] \<and> hd b = CHR ''/'' then b
      else if a = [] \<or> last a = CHR ''/'' then a @ b
      else a @ ''/'' @ b)"

section \<open>The document tree\<close>

text \<open>
  The tree that \<open>BeautifulSoup(f, "html.parser")\<close> builds. A text node is an object of the
  class \<open>NavigableString\<close> or of one of its subclasses; the class is set when the node is
  made: the parser gives the text inside \<open>script\<close>, \<open>style\<close>, \<open>template\<close>, \<open>rt\<close> and \<open>rp\<close>
  elements a class of its own, and comments, CDATA sections, declarations, doctypes and
  processing instructions theirs. \<open>Plain\<close> is the class \<open>NavigableString\<close> itself.
\<close>

datatype string_class =
    Plain
  | CData
  | ProcessingInstruction
  | Comment
  | Declaration
  | Doctype
  | Stylesheet
  | Script
  | TemplateString
  | RubyTextString
  | RubyParenthesisString

text \<open>
  A node is a text node with its class, or an element (\<open>Tag\<close>) with its name, the value
  of its \<open>class\<close> attribute (which bs4 keeps as the list of the classes; \<open>None\<close> when the
  element has no such attribute), its other attributes and its children.
\<close>

datatype node =
    NavigableString string_class string
  | Tag string "string list option" "(string \<times> string) list" "node list"

fun is_tag :: "node \<Rightarrow> bool" where
  "is_tag (Tag n cl at ch) = True"
| "is_tag (NavigableString sc s) = False"

fun has_name :: "string \<Rightarrow> node \<Rightarrow> bool" where
  "has_name m (Tag n cl at ch) = (n = m)"
| "has_name m (NavigableString sc s) = False"

fun has_class :: "string \<Rightarrow> node \<Rightarrow> bool" where
  "has_class k (Tag n cl at ch) = (case cl of None \<Rightarrow> False | Some classes \<Rightarrow> k \<in> set classes)"
| "has_class k (NavigableString sc s) = False"

fun children :: "node \<Rightarrow> node list" where
  "children (Tag n cl at ch) = ch"
| "children (NavigableString sc s) = []"

text \<open>\<open>element.descendants\<close>: every node below the element, in document order.\<close>

fun descendants :: "node \<Rightarrow> node list"
  and descendants_list :: "node list \<Rightarrow> node list" where
  "descendants (NavigableString sc s) = []"
| "descendants (Tag n cl at ch) = descendants_list ch"
| "descendants_list [] = []"
| "descendants_list (x # xs) = x # descendants x @ descendants_list xs"

text \<open>
  \<open>element.find(name)\<close> and \<open>element.find(name, class_=k)\<close>: the first descendant element,
  at any depth, with that name (and that class); \<open>None\<close> when there is none.
  \<open>element.find_all(..., recursive=False)\<close> looks at the children only.
\<close>

definition find_tag :: "string \<Rightarrow> node \<Rightarrow> node option" where
  "find_tag m e = List.find (has_name m) (descendants e)"

definition find_tag_class :: "string \<Rightarrow> string \<Rightarrow> node \<Rightarrow> node option" where
  "find_tag_class m k e = List.find (\<lambda>x. has_name m x \<and> has_class k x) (descendants e)"

definition find_all_children_class :: "string \<Rightarrow> string \<Rightarrow> node \<Rightarrow> node list" where
  "find_all_children_class m k e = filter (\<lambda>x. has_name m x \<and> has_class k x) (children e)"

text \<open>
  \<open>article.select_one("header > h1")\<close>: the first \<open>h1\<close> below the element, in document
  order, whose parent is a \<open>header\<close> element.
\<close>

fun select_header_h1 :: "string \<Rightarrow> node \<Rightarrow> node list"
  and select_header_h1_list :: "string \<Rightarrow> node list \<Rightarrow> node list" where
  "select_header_h1 p (NavigableString sc s) = []"
| "select_header_h1 p (Tag n cl at ch) =
     (if n = ''h1'' \<and> p = ''header'' then [Tag n cl at ch] else []) @ select_header_h1_list n ch"
| "select_header_h1_list p [] = []"
| "select_header_h1_list p (x # xs) = select_header_h1 p x @ select_header_h1_list p xs"

definition select_one_header_h1 :: "node \<Rightarrow> node option" where
  "select_one_header_h1 e =
     (case select_header_h1_list (case e of Tag n cl at ch \<Rightarrow> n | _ \<Rightarrow> []) (children e) of
        [] \<Rightarrow> None
      | x # xs \<Rightarrow> Some x)"

text \<open>
  The text nodes below an element in document order, each with the name of its parent,
  its class and its text.
\<close>

fun strings :: "string \<Rightarrow> node \<Rightarrow> (string \<times> string_class \<times> string) list"
  and strings_list :: "string \<Rightarrow> node list \<Rightarrow> (string \<times> string_class \<times> string) list" where
  "strings p (NavigableString sc s) = [(p, sc, s)]"
| "strings p (Tag n cl at ch) = strings_list n ch"
| "strings_list p [] = []"
| "strings_list p (x # xs) = strings p x @ strings_list p xs"

text \<open>
  \<open>element.get_text(strip=True)\<close>: the text nodes below the element whose class is one of
  the classes that count as the text of the element, each stripped, joined without a
  separator (a node that is empty once stripped adds nothing). For an element that
  is not a container of special strings these are the classes \<open>NavigableString\<close> and
  \<open>CData\<close>; for a container it is the class of its own strings.
\<close>

definition interesting_string_types :: "string \<Rightarrow> string_class list" where
  "interesting_string_types n =
     (if n = ''rt'' then [RubyTextString]
      else if n = ''rp'' then [RubyParenthesisString]
      else if n = ''style'' then [Stylesheet]
      else if n = ''script'' then [Script]
      else if n = ''template'' then [TemplateString]
      else [Plain, CData])"

fun get_text_strip :: "node \<Rightarrow> string" where
  "get_text_strip (NavigableString sc s) = strip s"
| "get_text_strip (Tag n cl at ch) =
     concat (map (\<lambda>(p, sc, s). strip s)
       (filter (\<lambda>(p, sc, s). sc \<in> set (interesting_string_types n)) (strings_list n ch)))"

text \<open>
  \<open>tag.string\<close>: the text of the only child when that is a text node, the \<open>string\<close> of the
  only child when that is an element, \<open>None\<close> otherwise.
\<close>

fun dot_string :: "node \<Rightarrow> string option" where
  "dot_string (NavigableString sc s) = Some s"
| "dot_string (Tag n cl at [x]) = dot_string x"
| "dot_string (Tag n cl at ch) = None"


section \<open>Serialising a tree\<close>

text \<open>
  \<open>str(element)\<close>, with the formatter bs4 uses by default. Text of the classes
  \<open>NavigableString\<close>, \<open>Stylesheet\<close>, \<open>Script\<close>, \<open>TemplateString\<close> and the two ruby classes is
  written with \<open>&\<close>, \<open><\<close> and \<open>>\<close> as entities, unless its parent is a \<open>script\<close> or \<open>style\<close>
  element, where it is written as it is. A comment, a CDATA section, a declaration, a
  doctype or a processing instruction is written as it is between its own delimiters.
  The attributes are written sorted by name, the classes joined by spaces, their values
  with \<open>&\<close>, \<open><\<close> and \<open>>\<close> as entities; an element without children whose name is one of
  the void elements is written as \<open><name .../>\<close>.
\<close>

fun substitute_xml :: "string \<Rightarrow> string" where
  "substitute_xml [] = []"
| "substitute_xml (c # cs) =
     (if c = CHR ''&'' then ''&amp;''
      else if c = CHR ''<'' then ''&lt;''
      else if c = CHR ''>'' then ''&gt;''
      else [c]) @ substitute_xml cs"

fun replace_quot :: "string \<Rightarrow> string" where
  "replace_quot [] = []"
| "replace_quot (c # cs) = (if c = CHR 0x22 then ''&quot;'' else [c]) @ replace_quot cs"

definition quoted_attribute_value :: "string \<Rightarrow> string" where
  "quoted_attribute_value v =
     (if CHR 0x22 \<in> set v then
        (if CHR 0x27 \<in> set v then [CHR 0x22] @ replace_quot v @ [CHR 0x22]
         else [CHR 0x27] @ v @ [CHR 0x27])
      else [CHR 0x22] @ v @ [CHR 0x22])"

text \<open>\<open>sep.join(xs)\<close>\<close>

fun join :: "string \<Rightarrow> string list \<Rightarrow> string" where
  "join sep [] = []"
| "join sep [x] = x"
| "join sep (x # y # ys) = x @ sep @ join sep (y # ys)"

definition empty_element_tags :: "string list" where
  "empty_element_tags =
     [''area'', ''base'', ''br'', ''col'', ''embed'', ''hr'', ''img'', ''input'', ''keygen'',
      ''link'', ''menuitem'', ''meta'', ''param'', ''source'', ''track'', ''wbr'',
      ''basefont'', ''bgsound'', ''command'', ''frame'', ''image'', ''isindex'', ''nextid'',
      ''spacer'']"

definition decode_attrs :: "string list option \<Rightarrow> (string \<times> string) list \<Rightarrow> string" where
  "decode_attrs cl at =
     concat (map (\<lambda>(k, v). '' '' @ k @ ''='' @ quoted_attribute_value (substitute_xml v))
       (sort_key fst
          ((case cl of None \<Rightarrow> [] | Some classes \<Rightarrow> [(''class'', join '' '' classes)]) @ at)))"

definition output_ready :: "string \<Rightarrow> string_class \<Rightarrow> string \<Rightarrow> string" where
  "output_ready p sc s =
     (case sc of
        CData \<Rightarrow> ''<![CDATA['' @ s @ '']]>''
      | ProcessingInstruction \<Rightarrow> ''<?'' @ s @ ''>''
      | Comment \<Rightarrow> ''<!--'' @ s @ ''-->''
      | Declaration \<Rightarrow> ''<?'' @ s @ ''?>''
      | Doctype \<Rightarrow> ''<!DOCTYPE '' @ s @ ''>'' @ [CHR 0x0A]
      | _ \<Rightarrow> (if p = ''script'' \<or> p = ''style'' then s else substitute_xml s))"

fun decode :: "string \<Rightarrow> node \<Rightarrow> string"
  and decode_list :: "string \<Rightarrow> node list \<Rightarrow> string" where
  "decode p (NavigableString sc s) = output_ready p sc s"
| "decode p (Tag n cl at ch) =
     (if ch = [] \<and> n \<in> set empty_element_tags
      then ''<'' @ n @ decode_attrs cl at @ ''/>''
      else ''<'' @ n @ decode_attrs cl at @ ''>'' @ decode_list n ch @ ''</'' @ n @ ''>'')"
| "decode_list p [] = []"
| "decode_list p (x # xs) = decode p x @ decode_list p xs"

definition to_str :: "node \<Rightarrow> string" where
  "to_str e = decode [] e"

section \<open>The card and the functions of \<open>notion_import.py\<close>\<close>

text \<open>
  The class \<open>NotionCard\<close>. Its field \<open>back\<close> is called \<open>back_html\<close> here, \<open>back\<close> being a
  command of Isabelle.
\<close>

record NotionCard =
  front :: string
  back_html :: string
  tags :: "string list"
  media_files :: "string list"

text \<open>
  \<open>extract_hashtags\<close> visits every text node below the element, of whatever class
  (\<open>find_all(string=True)\<close>). A node whose parent is \<open>script\<close> or \<open>style\<close> is skipped. The
  tags found in a node are collected in lower case; when \<open>keep_tags\<close> is false and the
  node holds a tag, the node is replaced by \<open>NavigableString(cleaned_text)\<close>, a plain
  string. The result is the changed element and the tags in document order.
\<close>

fun extract_hashtags_node :: "bool \<Rightarrow> string \<Rightarrow> node \<Rightarrow> node \<times> string list"
  and extract_hashtags_list :: "bool \<Rightarrow> string \<Rightarrow> node list \<Rightarrow> node list \<times> string list" where
  "extract_hashtags_node keep_tags p (NavigableString sc s) =
     (if p = ''script'' \<or> p = ''style'' then (NavigableString sc s, [])
      else
        (let found_tags = findall_hashtags s
         in (if \<not> keep_tags \<and> found_tags \<noteq> [] then NavigableString Plain (cleaned_text s)
             else NavigableString sc s,
             map lower found_tags)))"
| "extract_hashtags_node keep_tags p (Tag n cl at ch) =
     (let (ch', ts) = extract_hashtags_list keep_tags n ch in (Tag n cl at ch', ts))"
| "extract_hashtags_list keep_tags p [] = ([], [])"
| "extract_hashtags_list keep_tags p (x # xs) =
     (let (x', ts1) = extract_hashtags_node keep_tags p x;
          (xs', ts2) = extract_hashtags_list keep_tags p xs
      in (x' # xs', ts1 @ ts2))"

definition extract_hashtags :: "node \<Rightarrow> bool \<Rightarrow> node \<times> string list" where
  "extract_hashtags element keep_tags = extract_hashtags_node keep_tags [] element"

text \<open>
  What \<open>process_images\<close> prints is kept as a list of diagnostics; the files that exist are
  a set of paths (\<open>os.path.exists\<close>).
\<close>

datatype diagnostic = Missing_media string

definition process_img ::
  "string \<Rightarrow> string set \<Rightarrow> (string \<times> string) list
     \<Rightarrow> (string \<times> string) list \<times> string list \<times> diagnostic list" where
  "process_img assets_dir fs at =
     (case map_of at ''src'' of
        None \<Rightarrow> (at, [], [])
      | Some src \<Rightarrow>
          if src = [] then (at, [], [])
          else
            (let decoded_src = unquote src;
                 filename = basename decoded_src;
                 full_path = path_join assets_dir filename
             in if full_path \<in> fs
                then (AList.update ''src'' filename at, [full_path], [])
                else (at, [], [Missing_media full_path])))"

fun process_images_node ::
    "string \<Rightarrow> string set \<Rightarrow> node \<Rightarrow> node \<times> string list \<times> diagnostic list"
  and process_images_list ::
    "string \<Rightarrow> string set \<Rightarrow> node list \<Rightarrow> node list \<times> string list \<times> diagnostic list" where
  "process_images_node assets_dir fs (NavigableString sc s) = (NavigableString sc s, [], [])"
| "process_images_node assets_dir fs (Tag n cl at ch) =
     (let (at', m1, o1) = (if n = ''img'' then process_img assets_dir fs at else (at, [], []));
          (ch', m2, o2) = process_images_list assets_dir fs ch
      in (Tag n cl at' ch', m1 @ m2, o1 @ o2))"
| "process_images_list assets_dir fs [] = ([], [], [])"
| "process_images_list assets_dir fs (x # xs) =
     (let (x', m1, o1) = process_images_node assets_dir fs x;
          (xs', m2, o2) = process_images_list assets_dir fs xs
      in (x' # xs', m1 @ m2, o1 @ o2))"

text \<open>\<open>element.find_all("img")\<close> reaches the descendants of the element, not the element.\<close>

fun process_images :: "node \<Rightarrow> string \<Rightarrow> string set \<Rightarrow> node \<times> string list \<times> diagnostic list" where
  "process_images (NavigableString sc s) assets_dir fs = (NavigableString sc s, [], [])"
| "process_images (Tag n cl at ch) assets_dir fs =
     (let (ch', m, out) = process_images_list assets_dir fs ch in (Tag n cl at ch', m, out))"

text \<open>
  \<open>process_media_in_html\<close>: the images only; the call of \<open>process_audio_files\<close> is
  commented out in the source. The changed element is returned with the markup, since the
  source changes it in place.
\<close>

definition process_media_in_html ::
  "node \<Rightarrow> string \<Rightarrow> string set \<Rightarrow> (string \<times> string list) \<times> node \<times> diagnostic list" where
  "process_media_in_html element assets_dir fs =
     (let (element', media_files, out) = process_images element assets_dir fs
      in ((to_str element', media_files), element', out))"

fun remove_first_tag :: "node list \<Rightarrow> node list" where
  "remove_first_tag [] = []"
| "remove_first_tag (x # xs) = (if is_tag x then xs else x # remove_first_tag xs)"

fun extract_first_element :: "node \<Rightarrow> node" where
  "extract_first_element (Tag n cl at ch) = Tag n cl at (remove_first_tag ch)"
| "extract_first_element (NavigableString sc s) = NavigableString sc s"

definition parse_callout ::
  "node \<Rightarrow> string \<Rightarrow> string set \<Rightarrow> bool \<Rightarrow> NotionCard option \<times> diagnostic list" where
  "parse_callout callout assets_dir fs keep_tags =
     (case find_tag ''div'' callout of
        None \<Rightarrow> (None, [])
      | Some first_div0 \<Rightarrow>
          (let (first_div, tgs) = extract_hashtags first_div0 keep_tags
           in case List.find is_tag (children first_div) of
                None \<Rightarrow> (None, [])
              | Some first_element \<Rightarrow>
                  (let front_text = get_text_strip first_element
                   in if front_text = [] then (None, [])
                      else
                        (let ((back_markup, media), first_div', out) =
                               process_media_in_html (extract_first_element first_div)
                                 assets_dir fs;
                             unique_tags = sort (remdups (map lower tgs))
                         in (Some \<lparr>front = front_text, back_html = back_markup,
                                   tags = unique_tags, media_files = media\<rparr>, out)))))"


section \<open>The walker\<close>

text \<open>
  The dictionary \<open>subdecks\<close> is a list of keys with their card lists, in the order in which
  the keys were inserted (the order a Python dictionary iterates in). The walker changes
  the dictionary and prints; both are passed along as a state.

  Each call of \<open>parse_callout\<close> changes the subtree of its callout only, the callouts of a
  walk are children of one element and so are disjoint, and \<open>summary\<close> and \<open>indented\<close> of a
  \<open>details\<close> element are read before its callouts are parsed: no read of the walker sees a
  change made by an earlier call. So the walker reads the tree as it was parsed.

  \<open>process_details_subdeck\<close> and \<open>process_standalone_callout\<close> are the functions
  \<open>_process_details_subdeck\<close> and \<open>_process_standalone_callout\<close> of the source.
\<close>

type_synonym subdecks = "(string \<times> NotionCard list) list"

definition DEFAULT_SUBDECK_NAME :: string where
  "DEFAULT_SUBDECK_NAME = ''Default''"

text \<open>\<open>if name not in subdecks: subdecks[name] = []\<close>\<close>

definition ensure_key :: "string \<Rightarrow> subdecks \<Rightarrow> subdecks" where
  "ensure_key name sd = (if name \<in> set (map fst sd) then sd else sd @ [(name, [])])"

text \<open>
  \<open>subdecks[name].append(card)\<close>. The source reaches it only behind \<open>ensure_key\<close> for the
  same name, so the key is there.
\<close>

definition append_card :: "string \<Rightarrow> NotionCard \<Rightarrow> subdecks \<Rightarrow> subdecks" where
  "append_card name c sd =
     map (\<lambda>(k, cards). if k = name then (k, cards @ [c]) else (k, cards)) sd"

fun process_callouts ::
  "string \<Rightarrow> node list \<Rightarrow> string \<Rightarrow> string set \<Rightarrow> bool
     \<Rightarrow> subdecks \<times> diagnostic list \<Rightarrow> subdecks \<times> diagnostic list" where
  "process_callouts name [] assets_dir fs keep_tags st = st"
| "process_callouts name (callout # callouts) assets_dir fs keep_tags (sd, out) =
     (let (r, out') = parse_callout callout assets_dir fs keep_tags
      in process_callouts name callouts assets_dir fs keep_tags
           (case r of None \<Rightarrow> sd | Some c \<Rightarrow> append_card name c sd, out @ out'))"

definition process_details_subdeck ::
  "node \<Rightarrow> string \<Rightarrow> string set \<Rightarrow> bool
     \<Rightarrow> subdecks \<times> diagnostic list \<Rightarrow> subdecks \<times> diagnostic list" where
  "process_details_subdeck details assets_dir fs keep_tags st =
     (case find_tag ''summary'' details of
        None \<Rightarrow> st
      | Some summary \<Rightarrow>
          (let subdeck_name = get_text_strip summary;
               st1 = (ensure_key subdeck_name (fst st), snd st)
           in case find_tag_class ''div'' ''indented'' details of
                None \<Rightarrow> st1
              | Some indented \<Rightarrow>
                  process_callouts subdeck_name
                    (find_all_children_class ''figure'' ''callout'' indented)
                    assets_dir fs keep_tags st1))"

definition process_standalone_callout ::
  "node \<Rightarrow> string \<Rightarrow> string set \<Rightarrow> bool
     \<Rightarrow> subdecks \<times> diagnostic list \<Rightarrow> subdecks \<times> diagnostic list" where
  "process_standalone_callout callout assets_dir fs keep_tags st =
     (let sd1 = ensure_key DEFAULT_SUBDECK_NAME (fst st);
          (r, out') = parse_callout callout assets_dir fs keep_tags
      in (case r of None \<Rightarrow> sd1 | Some c \<Rightarrow> append_card DEFAULT_SUBDECK_NAME c sd1,
          snd st @ out'))"

text \<open>The body of the loop of \<open>parse_html_file\<close> over the children of the page body.\<close>

definition process_top_level ::
  "node \<Rightarrow> string \<Rightarrow> string set \<Rightarrow> bool
     \<Rightarrow> subdecks \<times> diagnostic list \<Rightarrow> subdecks \<times> diagnostic list" where
  "process_top_level element assets_dir fs keep_tags st =
     (if has_name ''details'' element
      then process_details_subdeck element assets_dir fs keep_tags st
      else if has_name ''figure'' element \<and> has_class ''callout'' element
      then process_standalone_callout element assets_dir fs keep_tags st
      else st)"

fun process_elements ::
  "node list \<Rightarrow> string \<Rightarrow> string set \<Rightarrow> bool
     \<Rightarrow> subdecks \<times> diagnostic list \<Rightarrow> subdecks \<times> diagnostic list" where
  "process_elements [] assets_dir fs keep_tags st = st"
| "process_elements (element # elements) assets_dir fs keep_tags st =
     process_elements elements assets_dir fs keep_tags
       (process_top_level element assets_dir fs keep_tags st)"

text \<open>
  \<open>extract_css_from_html\<close> on the parsed document: the \<open>string\<close> of the first \<open>style\<close>
  element (which may be \<open>None\<close>), the empty string when there is no such element.
\<close>

definition extract_css_from_html :: "node \<Rightarrow> string option" where
  "extract_css_from_html soup =
     (case find_tag ''style'' soup of None \<Rightarrow> Some [] | Some style_tag \<Rightarrow> dot_string style_tag)"

text \<open>
  \<open>parse_html_file\<close>, from the parsed document on. The result is the triple the source
  returns, and what was printed.
\<close>

definition parse_html_file ::
  "node \<Rightarrow> string \<Rightarrow> string set \<Rightarrow> bool
     \<Rightarrow> (string \<times> subdecks \<times> string option) \<times> diagnostic list" where
  "parse_html_file soup assets_dir fs keep_tags =
     (let css = extract_css_from_html soup
      in case find_tag ''article'' soup of
           None \<Rightarrow> ((''Notion Deck'', [], css), [])
         | Some article \<Rightarrow>
             (let deck_name =
                    (case select_one_header_h1 article of
                       None \<Rightarrow> ''Notion Deck''
                     | Some header \<Rightarrow> get_text_strip header)
              in case find_tag_class ''div'' ''page-body'' article of
                   None \<Rightarrow> ((deck_name, [], css), [])
                 | Some page_body \<Rightarrow>
                     (let (sd, out) =
                            process_elements
                              (filter (\<lambda>x. has_name ''details'' x \<or> has_name ''figure'' x)
                                 (children page_body))
                              assets_dir fs keep_tags ([], [])
                      in ((deck_name, sd, css), out))))"


section \<open>The exports\<close>

text \<open>
  \<open>export_csv\<close>: the rows written, the header first and then one row for every card of
  every subdeck.
\<close>

definition export_csv :: "string \<Rightarrow> subdecks \<Rightarrow> string list list" where
  "export_csv deck_name sd =
     [''Deck'', ''Subdeck'', ''Front'', ''Back'', ''Tags''] #
     concat (map (\<lambda>(subdeck_name, cards).
       map (\<lambda>c. [deck_name, subdeck_name, front c, back_html c, join '', '' (tags c)]) cards) sd)"

text \<open>
  \<open>export_apkg\<close>: what is handed to the package writer. The stylesheet \<open>css\<close> is what
  \<open>parse_html_file\<close> returned, a string or \<open>None\<close>; \<open>css + "\n" + CARD_STYLE_CSS\<close> is the
  first statement, and with \<open>None\<close> it raises \<open>TypeError\<close> before any deck is made. The text
  \<open>CARD_STYLE_CSS\<close> is read from a file that is not part of the sources and is a parameter
  here. Then one deck is made for every key of the dictionary, with its full name and one
  note (front, back, tags) for every card; the media of the package are the media of all
  cards, as a set. The identifier of a deck, a hash of its name, is left out.
\<close>

datatype error = TypeError

record package =
  model_css :: string
  decks :: "(string \<times> (string \<times> string \<times> string list) list) list"
  package_media :: "string set"

definition full_deck_name :: "string \<Rightarrow> string \<Rightarrow> string" where
  "full_deck_name deck_name subdeck_name =
     (if subdeck_name \<noteq> DEFAULT_SUBDECK_NAME then deck_name @ ''::'' @ subdeck_name
      else deck_name)"

definition export_apkg :: "string \<Rightarrow> subdecks \<Rightarrow> string option \<Rightarrow> string \<Rightarrow> error + package" where
  "export_apkg deck_name sd css CARD_STYLE_CSS =
     (case css of
        None \<Rightarrow> Inl TypeError
      | Some css_text \<Rightarrow>
          Inr \<lparr>model_css = css_text @ [CHR 0x0A] @ CARD_STYLE_CSS,
               decks =
                 map (\<lambda>(subdeck_name, cards).
                   (full_deck_name deck_name subdeck_name,
                    map (\<lambda>c. (front c, back_html c, tags c)) cards)) sd,
               package_media =
                 set (concat (map (\<lambda>(subdeck_name, cards). concat (map media_files cards)) sd))\<rparr>)"

section \<open>What the properties are stated with\<close>

text \<open>The value of a result that is not an error.\<close>

fun projr_option :: "'e + 'a \<Rightarrow> 'a option" where
  "projr_option (Inr x) = Some x"
| "projr_option (Inl e) = None"

text \<open>\<open>element.find_all(name)\<close>: the descendant elements with that name, in document order.\<close>

definition find_all :: "string \<Rightarrow> node \<Rightarrow> node list" where
  "find_all m e = filter (has_name m) (descendants e)"

text \<open>\<open>element.get(k)\<close> for an attribute other than \<open>class\<close>.\<close>

fun get_attr :: "string \<Rightarrow> node \<Rightarrow> string option" where
  "get_attr k (Tag n cl at ch) = map_of at k"
| "get_attr k (NavigableString sc s) = None"

text \<open>Name, classes and attributes of an element; \<open>None\<close> for a text node.\<close>

fun tag_head :: "node \<Rightarrow> (string \<times> string list option \<times> (string \<times> string) list) option" where
  "tag_head (Tag n cl at ch) = Some (n, cl, at)"
| "tag_head (NavigableString sc s) = None"

text \<open>
  What \<open>process_images\<close> does at one node: the head of the node afterwards, the paths it
  appends and what it prints.
\<close>

fun head_after ::
  "string \<Rightarrow> string set \<Rightarrow> node \<Rightarrow> (string \<times> string list option \<times> (string \<times> string) list) option" where
  "head_after A fs (Tag n cl at ch) =
     Some (n, cl, if n = ''img'' then fst (process_img A fs at) else at)"
| "head_after A fs (NavigableString sc s) = None"

fun img_media :: "string \<Rightarrow> string set \<Rightarrow> node \<Rightarrow> string list" where
  "img_media A fs (Tag n cl at ch) = (if n = ''img'' then fst (snd (process_img A fs at)) else [])"
| "img_media A fs (NavigableString sc s) = []"


text \<open>
  The test of \<open>process_audio_files\<close> for an audio file, with the constant
  \<open>AUDIO_EXTENSIONS\<close> of the source: \<open>any(href.lower().endswith(ext) for ext in
  AUDIO_EXTENSIONS)\<close>.
\<close>

definition AUDIO_EXTENSIONS :: "string list" where
  "AUDIO_EXTENSIONS = [''.mp3'', ''.wav'', ''.ogg'', ''.m4a'']"

definition endswith :: "string \<Rightarrow> string \<Rightarrow> bool" where
  "endswith s ext = (length ext \<le> length s \<and> drop (length s - length ext) s = ext)"

definition is_audio :: "string \<Rightarrow> bool" where
  "is_audio href = list_ex (\<lambda>ext. endswith (lower href) ext) AUDIO_EXTENSIONS"

text \<open>The file an image source points to: the source decoded, its last segment, joined.\<close>

definition target :: "string \<Rightarrow> string \<Rightarrow> string" where
  "target A src = path_join A (basename (unquote src))"

text \<open>Two whitespace characters in a row.\<close>

fun space_run :: "string \<Rightarrow> bool" where
  "space_run (a # b # cs) = ((is_space a \<and> is_space b) \<or> space_run (b # cs))"
| "space_run cs = False"

text \<open>The elements of a list in the order of their first occurrences.\<close>

fun first_seen :: "'a list \<Rightarrow> 'a list" where
  "first_seen [] = []"
| "first_seen (x # xs) = x # removeAll x (first_seen xs)"

text \<open>
  The cards of a list of callouts, in the order of the callouts; and what a child of the
  page body stands for in document order: a \<open>details\<close> element with a summary stands for
  the label and the cards of the callouts of its indented region, a callout figure for
  the default name and its card, anything else for nothing.
\<close>

definition cards_of :: "node list \<Rightarrow> string \<Rightarrow> string set \<Rightarrow> bool \<Rightarrow> NotionCard list" where
  "cards_of callouts A fs k = List.map_filter (\<lambda>x. fst (parse_callout x A fs k)) callouts"

definition contribution ::
  "string \<Rightarrow> string set \<Rightarrow> bool \<Rightarrow> node \<Rightarrow> (string \<times> NotionCard list) option" where
  "contribution A fs k element =
     (if has_name ''details'' element then
        (case find_tag ''summary'' element of
           None \<Rightarrow> None
         | Some summary \<Rightarrow>
             Some (get_text_strip summary,
               (case find_tag_class ''div'' ''indented'' element of
                  None \<Rightarrow> []
                | Some indented \<Rightarrow>
                    cards_of (find_all_children_class ''figure'' ''callout'' indented) A fs k)))
      else if has_name ''figure'' element \<and> has_class ''callout'' element
      then Some (DEFAULT_SUBDECK_NAME, cards_of [element] A fs k)
      else None)"

definition events ::
  "node \<Rightarrow> string \<Rightarrow> string set \<Rightarrow> bool \<Rightarrow> (string \<times> NotionCard list) list" where
  "events page_body A fs k = List.map_filter (contribution A fs k) (children page_body)"


text \<open>
  What one child of the page body does to the dictionary: its label is looked up or
  inserted, then its cards are appended one by one.
\<close>

definition add_group :: "string \<times> NotionCard list \<Rightarrow> subdecks \<Rightarrow> subdecks" where
  "add_group g sd = fold (append_card (fst g)) (snd g) (ensure_key (fst g) sd)"


text \<open>
  The contributions of a whole document: those of the children of its page body, none
  when the document has no article or the article no page body.
\<close>

definition document_events ::
  "node \<Rightarrow> string \<Rightarrow> string set \<Rightarrow> bool \<Rightarrow> (string \<times> NotionCard list) list" where
  "document_events soup A fs k =
     (case find_tag ''article'' soup of
        None \<Rightarrow> []
      | Some article \<Rightarrow>
          (case find_tag_class ''div'' ''page-body'' article of
             None \<Rightarrow> []
           | Some page_body \<Rightarrow> events page_body A fs k))"

text \<open>
  An image whose source is not empty and points to a file that exists (the source is
  rewritten), or to a file that does not exist (the source is left and a diagnostic printed).
\<close>

definition image_found :: "string \<Rightarrow> string set \<Rightarrow> node \<Rightarrow> bool" where
  "image_found A fs img =
     (case get_attr ''src'' img of None \<Rightarrow> False | Some src \<Rightarrow> src \<noteq> [] \<and> target A src \<in> fs)"


text \<open>
  The container of a callout after the hashtags were extracted and the front element was
  taken out: what \<open>parse_callout\<close> passes to \<open>process_media_in_html\<close>.
\<close>

definition back_element :: "node \<Rightarrow> bool \<Rightarrow> node" where
  "back_element first_div k = extract_first_element (fst (extract_hashtags first_div k))"

text \<open>What \<open>extract_hashtags\<close> makes of one text node when the tags are not kept.\<close>

definition clean_node ::
  "string \<times> string_class \<times> string \<Rightarrow> string \<times> string_class \<times> string" where
  "clean_node = (\<lambda>(q, sc, s).
     if q = ''script'' \<or> q = ''style'' \<or> findall_hashtags s = [] then (q, sc, s)
     else (q, Plain, cleaned_text s))"

section \<open>Example documents\<close>

definition callout_of :: "node list \<Rightarrow> node" where
  "callout_of content = Tag ''figure'' (Some [''callout'']) [] [Tag ''div'' None [] content]"

definition qa :: "string \<Rightarrow> string \<Rightarrow> node" where
  "qa q a =
     callout_of [Tag ''p'' None [] [NavigableString Plain q], Tag ''p'' None [] [NavigableString Plain a]]"

definition details_of :: "string \<Rightarrow> node list \<Rightarrow> node" where
  "details_of label callouts =
     Tag ''details'' None []
       [Tag ''summary'' None [] [NavigableString Plain label], Tag ''div'' (Some [''indented'']) [] callouts]"

definition page_body_of :: "node list \<Rightarrow> node" where
  "page_body_of body = Tag ''div'' (Some [''page-body'']) [] body"

definition article_of :: "node list \<Rightarrow> node" where
  "article_of body =
     Tag ''article'' None []
       [Tag ''header'' None [] [Tag ''h1'' None [] [NavigableString Plain ''Deck'']], page_body_of body]"

definition page_of :: "node list \<Rightarrow> node" where
  "page_of body =
     Tag ''[document]'' None [] [Tag ''html'' None [] [Tag ''body'' None [] [article_of body]]]"

text \<open>The label \<open>B\<close> comes twice, with a callout outside any section in between.\<close>

definition doc_repeated :: node where
  "doc_repeated =
     page_of [details_of ''B'' [qa ''q1'' ''a1''],
              qa ''q2'' ''a2'',
              details_of ''A'' [qa ''q3'' ''a3''],
              details_of ''B'' [qa ''q4'' ''a4'', qa ''q5'' ''a5'']]"

text \<open>A callout with a repeated tag and a tag in upper case.\<close>

definition callout_tags :: node where
  "callout_tags = qa ''Q #b #A'' ''why #b''"

text \<open>A container with a tag in a paragraph, a style element and a text node of its own.\<close>

definition div_tags :: node where
  "div_tags =
     Tag ''div'' None []
       [Tag ''p'' None [] [NavigableString Plain ''Q #Math''],
        Tag ''style'' None [] [NavigableString Stylesheet ''#x {}''],
        NavigableString Plain ''  #b_2 ! '']"

text \<open>An article with a heading and no page body; a document with no article.\<close>

definition article_no_body :: node where
  "article_no_body =
     Tag ''article'' None [] [Tag ''header'' None [] [Tag ''h1'' None [] [NavigableString Plain ''My Deck'']]]"

definition doc_no_body :: node where
  "doc_no_body = Tag ''[document]'' None [] [article_no_body]"

definition doc_no_article :: node where
  "doc_no_article = Tag ''[document]'' None [] [Tag ''p'' None [] [NavigableString Plain ''hello'']]"

text \<open>
  Callouts: one whose container is not a child of the callout, one whose container holds
  text only, one whose front is nothing but a tag.
\<close>

definition callout_deep :: node where
  "callout_deep =
     Tag ''figure'' (Some [''callout'']) []
       [Tag ''span'' None []
          [Tag ''div'' None [] [Tag ''p'' None [] [NavigableString Plain ''Q''],
                              Tag ''p'' None [] [NavigableString Plain ''A'']]]]"

definition callout_text_only :: node where
  "callout_text_only = callout_of [NavigableString Plain ''only text'']"

definition callout_tag_front :: node where
  "callout_tag_front = qa '' #math '' ''A''"

text \<open>
  Callouts whose first element holds only a ruby text, only a no-break space, only a
  comment.
\<close>

definition callout_rt_front :: node where
  "callout_rt_front =
     callout_of
       [Tag ''p'' None [] [Tag ''rt'' None [] [NavigableString RubyTextString ''only'']],
        Tag ''p'' None [] [NavigableString Plain ''A'']]"

definition callout_nbsp_front :: node where
  "callout_nbsp_front = qa [CHR 0xA0] ''A''"

definition callout_comment_front :: node where
  "callout_comment_front =
     callout_of
       [Tag ''p'' None [] [NavigableString Comment ''note''],
        Tag ''p'' None [] [NavigableString Plain ''A'']]"

text \<open>A section with a label and no indented region, before a callout of its own.\<close>

definition details_empty :: node where
  "details_empty = Tag ''details'' None [] [Tag ''summary'' None [] [NavigableString Plain ''Empty'']]"

definition doc_empty_section :: node where
  "doc_empty_section = page_of [details_empty, qa ''q'' ''a'']"

text \<open>
  A callout with a link to an audio file that exists, an image that exists and an image
  that does not; its container once the front is taken out, before and after the images
  are processed; the card.
\<close>

definition div_images :: node where
  "div_images =
     Tag ''div'' None []
       [Tag ''p'' None [] [NavigableString Plain ''Q''],
        Tag ''p'' None [] [NavigableString Plain ''A'',
          Tag ''a'' None [(''href'', ''rec.mp3'')] [NavigableString Plain ''listen'']],
        Tag ''img'' None [(''alt'', ''x''), (''src'', ''notes/dia%20gram.png'')] [],
        Tag ''img'' None [(''src'', ''pics/missing.png'')] []]"

definition callout_images :: node where
  "callout_images = Tag ''figure'' (Some [''callout'']) [] [div_images]"

definition assets_example :: "string set" where
  "assets_example = {''/assets/dia gram.png'', ''/assets/rec.mp3''}"

definition back_images :: node where
  "back_images =
     Tag ''div'' None []
       [Tag ''p'' None [] [NavigableString Plain ''A'',
          Tag ''a'' None [(''href'', ''rec.mp3'')] [NavigableString Plain ''listen'']],
        Tag ''img'' None [(''alt'', ''x''), (''src'', ''notes/dia%20gram.png'')] [],
        Tag ''img'' None [(''src'', ''pics/missing.png'')] []]"

definition back_images_after :: node where
  "back_images_after =
     Tag ''div'' None []
       [Tag ''p'' None [] [NavigableString Plain ''A'',
          Tag ''a'' None [(''href'', ''rec.mp3'')] [NavigableString Plain ''listen'']],
        Tag ''img'' None [(''alt'', ''x''), (''src'', ''dia gram.png'')] [],
        Tag ''img'' None [(''src'', ''pics/missing.png'')] []]"

text \<open>A callout whose back holds an image element that points to the audio file.\<close>

definition callout_img_audio :: node where
  "callout_img_audio =
     callout_of
       [Tag ''p'' None [] [NavigableString Plain ''Q''],
        Tag ''img'' None [(''src'', ''rec.mp3'')] []]"

definition card_images :: NotionCard where
  "card_images =
     \<lparr>front = ''Q'', back_html = to_str back_images_after, tags = [],
      media_files = [''/assets/dia gram.png'']\<rparr>"

text \<open>
  A callout whose front has a run of spaces in one text node and a token split over two;
  a container with a tag among runs of spaces, a run of spaces without a tag, and a style.
\<close>

definition callout_spaces :: node where
  "callout_spaces =
     callout_of
       [Tag ''p'' None [] [NavigableString Plain ''a  b #'', Tag ''b'' None [] [NavigableString Plain ''x'']],
        Tag ''p'' None [] [NavigableString Plain ''A'']]"

definition div_remove :: node where
  "div_remove =
     Tag ''div'' None []
       [Tag ''p'' None [] [NavigableString Plain '' Q1   #math  now ''],
        Tag ''p'' None [] [NavigableString Plain ''two  spaces''],
        Tag ''style'' None [] [NavigableString Stylesheet ''#x {}'']]"

section \<open>Lemmas: text\<close>

lemma lower_char_idem: "lower_char (lower_char c) = lower_char c"
  by (simp add: lower_char_def Let_def)

lemma lower_idem: "lower (lower s) = lower s"
  by (simp add: lower_def lower_char_idem)

lemma hash_not_word: "\<not> is_word CHR ''#''"
  by (simp add: is_word_def)

lemma hash_not_space: "\<not> is_space CHR ''#''"
  by (simp add: is_space_def)

lemma space_is_space: "is_space CHR '' ''"
  by (simp add: is_space_def)

lemma space_not_word: "is_space c \<Longrightarrow> \<not> is_word c"
  by (auto simp: is_space_def is_word_def Let_def)

lemma sub_hashtags_head:
  "s = [] \<or> \<not> is_word (hd s) \<Longrightarrow> sub_hashtags s = [] \<or> \<not> is_word (hd (sub_hashtags s))"
proof (induction s rule: sub_hashtags.induct)
  case 1
  then show ?case by simp
next
  case (2 c cs)
  show ?case
  proof (cases "c = CHR ''#'' \<and> cs \<noteq> [] \<and> is_word (hd cs)")
    case True
    have "dropWhile is_word cs = [] \<or> \<not> is_word (hd (dropWhile is_word cs))"
      using hd_dropWhile[of is_word cs] by blast
    with True 2 show ?thesis by simp
  next
    case False
    with 2 show ?thesis by auto
  qed
qed

lemma findall_sub_hashtags: "findall_hashtags (sub_hashtags s) = []"
proof (induction s rule: sub_hashtags.induct)
  case 1
  then show ?case by simp
next
  case (2 c cs)
  show ?case
  proof (cases "c = CHR ''#'' \<and> cs \<noteq> [] \<and> is_word (hd cs)")
    case True
    with 2 show ?thesis by simp
  next
    case False
    have "c = CHR ''#'' \<Longrightarrow> sub_hashtags cs = [] \<or> \<not> is_word (hd (sub_hashtags cs))"
      using False sub_hashtags_head[of cs] by blast
    with False 2 show ?thesis by auto
  qed
qed

lemma sub_spaces_head:
  "s = [] \<or> \<not> is_space (hd s) \<Longrightarrow> sub_spaces s = [] \<or> \<not> is_space (hd (sub_spaces s))"
  by (cases s) auto

lemma sub_spaces_head_word:
  "s = [] \<or> \<not> is_word (hd s) \<Longrightarrow> sub_spaces s = [] \<or> \<not> is_word (hd (sub_spaces s))"
  by (cases s) (auto simp: is_word_def)

lemma space_run_Cons:
  "space_run (a # s) = ((s \<noteq> [] \<and> is_space a \<and> is_space (hd s)) \<or> space_run s)"
  by (cases s) auto

lemma sub_spaces_no_run: "\<not> space_run (sub_spaces s)"
proof (induction s rule: sub_spaces.induct)
  case 1
  then show ?case by simp
next
  case (2 c cs)
  show ?case
  proof (cases "is_space c")
    case True
    have "dropWhile is_space cs = [] \<or> \<not> is_space (hd (dropWhile is_space cs))"
      using hd_dropWhile[of is_space cs] by blast
    then have "sub_spaces (dropWhile is_space cs) = []
        \<or> \<not> is_space (hd (sub_spaces (dropWhile is_space cs)))"
      by (rule sub_spaces_head)
    with True 2 show ?thesis by (auto simp: space_run_Cons)
  next
    case False
    with 2 show ?thesis by (auto simp: space_run_Cons)
  qed
qed

lemma findall_Cons_no_hash: "c \<noteq> CHR ''#'' \<Longrightarrow> findall_hashtags (c # cs) = findall_hashtags cs"
  by simp

lemma findall_dropWhile_space:
  "findall_hashtags s = [] \<Longrightarrow> findall_hashtags (dropWhile is_space s) = []"
  by (induction s) (auto simp: hash_not_space split: if_splits)

lemma findall_sub_spaces: "findall_hashtags s = [] \<Longrightarrow> findall_hashtags (sub_spaces s) = []"
proof (induction s rule: sub_spaces.induct)
  case 1
  then show ?case by simp
next
  case (2 c cs)
  show ?case
  proof (cases "is_space c")
    case True
    then have c: "c \<noteq> CHR ''#''" using hash_not_space by auto
    with 2(3) have "findall_hashtags cs = []" by simp
    then have "findall_hashtags (dropWhile is_space cs) = []" by (rule findall_dropWhile_space)
    with True 2(1) show ?thesis by simp
  next
    case False
    show ?thesis
    proof (cases "c = CHR ''#''")
      case True
      with 2(3) have nw: "cs = [] \<or> \<not> is_word (hd cs)" and t: "findall_hashtags cs = []"
        by (auto split: if_splits)
      from nw have "sub_spaces cs = [] \<or> \<not> is_word (hd (sub_spaces cs))"
        by (rule sub_spaces_head_word)
      with False True 2(2) t show ?thesis by auto
    next
      case c: False
      with 2(3) have "findall_hashtags cs = []" by simp
      with False c 2(2) show ?thesis by simp
    qed
  qed
qed

lemma findall_prefix: "findall_hashtags (xs @ ys) = [] \<Longrightarrow> findall_hashtags xs = []"
proof (induction xs rule: findall_hashtags.induct)
  case 1
  then show ?case by simp
next
  case (2 c cs)
  show ?case
  proof (cases "c = CHR ''#'' \<and> cs \<noteq> [] \<and> is_word (hd cs)")
    case True
    with 2(3) show ?thesis by simp
  next
    case False
    with 2(3) have "findall_hashtags (cs @ ys) = []" by (auto split: if_splits)
    with False 2(2) show ?thesis by auto
  qed
qed

lemma rstrip_prefix: "\<exists>zs. s = rev (dropWhile P (rev s)) @ zs"
proof -
  have "rev (takeWhile P (rev s) @ dropWhile P (rev s)) = s"
    by (simp only: takeWhile_dropWhile_id rev_rev_ident)
  then have "s = rev (dropWhile P (rev s)) @ rev (takeWhile P (rev s))"
    by (simp only: rev_append)
  then show ?thesis by blast
qed

lemma findall_strip: "findall_hashtags s = [] \<Longrightarrow> findall_hashtags (strip s) = []"
proof -
  assume "findall_hashtags s = []"
  then have d: "findall_hashtags (dropWhile is_space s) = []" by (rule findall_dropWhile_space)
  obtain zs where "dropWhile is_space s = strip s @ zs"
    unfolding strip_def using rstrip_prefix[of "dropWhile is_space s" is_space] by blast
  with d show ?thesis using findall_prefix by metis
qed

lemma space_run_dropWhile: "\<not> space_run s \<Longrightarrow> \<not> space_run (dropWhile P s)"
  by (induction s) (auto simp: space_run_Cons)

lemma space_run_prefix: "\<not> space_run (xs @ ys) \<Longrightarrow> \<not> space_run xs"
  by (induction xs) (auto simp: space_run_Cons)

lemma space_run_strip: "\<not> space_run s \<Longrightarrow> \<not> space_run (strip s)"
proof -
  assume "\<not> space_run s"
  then have d: "\<not> space_run (dropWhile is_space s)" by (rule space_run_dropWhile)
  obtain zs where "dropWhile is_space s = strip s @ zs"
    unfolding strip_def using rstrip_prefix[of "dropWhile is_space s" is_space] by blast
  with d show ?thesis using space_run_prefix by metis
qed

lemma strip_ends:
  "strip s \<noteq> [] \<Longrightarrow> \<not> is_space (hd (strip s)) \<and> \<not> is_space (last (strip s))"
proof -
  assume ne: "strip s \<noteq> []"
  let ?u = "dropWhile is_space s"
  have l: "\<not> is_space (last (strip s))"
    using ne hd_dropWhile[of is_space "rev ?u"] by (simp add: strip_def last_rev)
  obtain zs where z: "?u = strip s @ zs"
    unfolding strip_def using rstrip_prefix[of ?u is_space] by blast
  with ne have "hd ?u = hd (strip s)" by (metis hd_append2)
  moreover have "?u \<noteq> []" using z ne by auto
  ultimately have "\<not> is_space (hd (strip s))" using hd_dropWhile[of is_space s] by metis
  with l show ?thesis by simp
qed

lemma cleaned_text_clean:
  "findall_hashtags (cleaned_text s) = [] \<and> \<not> space_run (cleaned_text s)
   \<and> (cleaned_text s \<noteq> [] \<longrightarrow>
        \<not> is_space (hd (cleaned_text s)) \<and> \<not> is_space (last (cleaned_text s)))"
  unfolding cleaned_text_def
  using findall_strip[OF findall_sub_spaces[OF findall_sub_hashtags]]
    space_run_strip[OF sub_spaces_no_run] strip_ends by blast


section \<open>Lemmas: images\<close>

lemma process_images_heads:
  "map tag_head (fst (process_images_node A fs x) # descendants (fst (process_images_node A fs x)))
     = map (head_after A fs) (x # descendants x)"
  "map tag_head (descendants_list (fst (process_images_list A fs xs)))
     = map (head_after A fs) (descendants_list xs)"
  by (induction x and xs rule: descendants_descendants_list.induct)
     (simp_all add: split_beta Let_def)

lemma process_images_media:
  "fst (snd (process_images_node A fs x)) = concat (map (img_media A fs) (x # descendants x))"
  "fst (snd (process_images_list A fs xs)) = concat (map (img_media A fs) (descendants_list xs))"
  by (induction x and xs rule: descendants_descendants_list.induct)
     (simp_all add: split_beta Let_def)


lemma process_images_strings:
  "strings p (fst (process_images_node A fs x)) = strings p x"
  "strings_list p (fst (process_images_list A fs xs)) = strings_list p xs"
  by (induction x and xs arbitrary: p and p rule: descendants_descendants_list.induct)
     (simp_all add: split_beta Let_def)


section \<open>Lemmas: the walker\<close>

lemma process_callouts_fold:
  "fst (process_callouts name cs A fs k (sd, out)) = fold (append_card name) (cards_of cs A fs k) sd"
proof (induction cs arbitrary: sd out)
  case Nil
  then show ?case by (simp add: cards_of_def List.map_filter_simps)
next
  case (Cons c cs)
  show ?case
    by (cases "parse_callout c A fs k")
       (auto simp: Cons cards_of_def List.map_filter_simps split: option.splits)
qed

lemma process_top_level_group:
  "fst (process_top_level el A fs k st) =
     (case contribution A fs k el of None \<Rightarrow> fst st | Some g \<Rightarrow> add_group g (fst st))"
proof -
  obtain sd out where st: "st = (sd, out)" by (cases st)
  show ?thesis
    unfolding st process_top_level_def contribution_def process_details_subdeck_def
      process_standalone_callout_def add_group_def
    by (auto simp: process_callouts_fold cards_of_def List.map_filter_simps split_beta Let_def
        split: option.splits)
qed

lemma process_elements_fold:
  "fst (process_elements els A fs k st) =
     fold add_group (List.map_filter (contribution A fs k) els) (fst st)"
proof (induction els arbitrary: st)
  case Nil
  then show ?case by (simp add: List.map_filter_simps)
next
  case (Cons el els)
  show ?case
    by (simp add: Cons process_top_level_group List.map_filter_simps split: option.splits)
qed

lemma contribution_other:
  "\<not> (has_name ''details'' x \<or> has_name ''figure'' x) \<Longrightarrow> contribution A fs k x = None"
  by (simp add: contribution_def)

lemma contribution_filter:
  "List.map_filter (contribution A fs k)
     (filter (\<lambda>x. has_name ''details'' x \<or> has_name ''figure'' x) xs)
   = List.map_filter (contribution A fs k) xs"
proof (induction xs)
  case Nil
  then show ?case by simp
next
  case (Cons x xs)
  show ?case
  proof (cases "has_name ''details'' x \<or> has_name ''figure'' x")
    case True
    with Cons show ?thesis by (simp add: List.map_filter_simps split: option.splits)
  next
    case False
    then have "contribution A fs k x = None" by (rule contribution_other)
    with False Cons show ?thesis by (simp add: List.map_filter_simps)
  qed
qed

lemma keys_append_card: "map fst (append_card n c sd) = map fst sd"
  by (induction sd) (auto simp: append_card_def)

lemma keys_fold_append_card: "map fst (fold (append_card n) cs sd) = map fst sd"
  by (induction cs arbitrary: sd) (simp_all add: keys_append_card)

lemma keys_add_group:
  "map fst (add_group g sd) = (if fst g \<in> set (map fst sd) then map fst sd else map fst sd @ [fst g])"
  by (simp add: add_group_def keys_fold_append_card ensure_key_def)

lemma first_seen_filter: "first_seen (filter P ys) = filter P (first_seen ys)"
proof (induction ys)
  case Nil
  then show ?case by simp
next
  case (Cons y ys)
  show ?case
  proof (cases "P y")
    case True
    have "removeAll y (filter P (first_seen ys)) = filter P (removeAll y (first_seen ys))"
      by (simp add: removeAll_filter_not_eq conj_commute)
    with True Cons show ?thesis by simp
  next
    case False
    have "filter P (removeAll y (first_seen ys)) = removeAll y (filter P (first_seen ys))"
      by (simp add: removeAll_filter_not_eq conj_commute)
    also have "\<dots> = filter P (first_seen ys)"
      using False by (simp add: removeAll_id)
    finally show ?thesis using False Cons by simp
  qed
qed

lemma removeAll_first_seen: "removeAll x (first_seen ys) = first_seen (removeAll x ys)"
  by (simp add: removeAll_filter_not_eq first_seen_filter)

lemma set_first_seen: "set (first_seen xs) = set xs"
  by (induction xs) auto

lemma distinct_first_seen: "distinct (first_seen xs)"
  by (induction xs) (auto simp: distinct_removeAll)

lemma keys_fold_add_group:
  "map fst (fold add_group evs sd) =
     map fst sd @ first_seen (filter (\<lambda>n. n \<notin> set (map fst sd)) (map fst evs))"
proof (induction evs arbitrary: sd)
  case Nil
  then show ?case by simp
next
  case (Cons e evs)
  show ?case
  proof (cases "fst e \<in> set (map fst sd)")
    case True
    then show ?thesis by (simp add: Cons keys_add_group)
  next
    case False
    let ?old = "\<lambda>n. n \<notin> set (map fst sd)"
    have "filter (\<lambda>n. n \<notin> set (map fst sd @ [fst e])) (map fst evs)
        = removeAll (fst e) (filter ?old (map fst evs))"
      by (induction evs) auto
    then have "first_seen (filter (\<lambda>n. n \<notin> set (map fst sd @ [fst e])) (map fst evs))
        = removeAll (fst e) (first_seen (filter ?old (map fst evs)))"
      by (simp only: removeAll_first_seen)
    moreover have "map fst (add_group e sd) = map fst sd @ [fst e]"
      using False by (simp add: keys_add_group)
    moreover have "filter ?old (map fst (e # evs)) = fst e # filter ?old (map fst evs)"
      using False by simp
    ultimately show ?thesis
      by (simp only: fold_simps Cons first_seen.simps append_assoc append_Cons append_Nil)
  qed
qed

lemma map_of_append_card:
  "map_of (append_card n c sd) k =
     (if k = n then map_option (\<lambda>v. v @ [c]) (map_of sd n) else map_of sd k)"
  by (induction sd) (auto simp: append_card_def)

lemma map_of_fold_append_card:
  "map_of (fold (append_card n) cs sd) k =
     (if k = n then map_option (\<lambda>v. v @ cs) (map_of sd n) else map_of sd k)"
proof (induction cs arbitrary: sd)
  case Nil
  then show ?case by (simp add: option.map_ident)
next
  case (Cons c cs)
  show ?case by (simp add: Cons map_of_append_card option.map_comp comp_def)
qed

lemma map_of_ensure_key:
  "map_of (ensure_key n sd) k =
     (if k = n then Some (case map_of sd n of None \<Rightarrow> [] | Some v \<Rightarrow> v) else map_of sd k)"
proof (cases "n \<in> set (map fst sd)")
  case True
  then obtain v where "map_of sd n = Some v"
    using map_of_eq_None_iff[of sd n] by fastforce
  with True show ?thesis by (simp add: ensure_key_def)
next
  case False
  then have "map_of sd n = None" by (simp add: map_of_eq_None_iff)
  with False show ?thesis by (auto simp: ensure_key_def map_add_def split: option.splits)
qed

lemma map_of_add_group:
  "map_of (add_group g sd) k =
     (if k = fst g then Some ((case map_of sd k of None \<Rightarrow> [] | Some v \<Rightarrow> v) @ snd g)
      else map_of sd k)"
  by (simp add: add_group_def map_of_fold_append_card map_of_ensure_key)

lemma map_of_fold_add_group:
  "map_of (fold add_group evs sd) k =
     (if k \<in> set (map fst evs)
      then Some ((case map_of sd k of None \<Rightarrow> [] | Some v \<Rightarrow> v)
                 @ concat (map snd (filter (\<lambda>e. fst e = k) evs)))
      else map_of sd k)"
proof (induction evs arbitrary: sd)
  case Nil
  then show ?case by simp
next
  case (Cons e evs)
  show ?case
  proof (cases "k \<in> set (map fst evs)")
    case True
    then show ?thesis by (simp add: Cons map_of_add_group)
  next
    case False
    then have "concat (map snd (filter (\<lambda>e. fst e = k) evs)) = []"
      by (induction evs) auto
    with False show ?thesis by (simp add: Cons map_of_add_group)
  qed
qed

section \<open>Lemmas: the card parser\<close>

lemma parse_callout_tags:
  "parse_callout c A fs k = (Some cd, out) \<Longrightarrow> \<exists>tgs. tags cd = sort (remdups (map lower tgs))"
  unfolding parse_callout_def
  by (auto simp: Let_def split: option.splits prod.splits if_splits)

lemma extract_hashtags_keep:
  "extract_hashtags_node True p x =
     (x, concat (map (\<lambda>(q, sc, s). map lower (findall_hashtags s))
           (filter (\<lambda>(q, sc, s). q \<noteq> ''script'' \<and> q \<noteq> ''style'') (strings p x))))"
  "extract_hashtags_list True p xs =
     (xs, concat (map (\<lambda>(q, sc, s). map lower (findall_hashtags s))
           (filter (\<lambda>(q, sc, s). q \<noteq> ''script'' \<and> q \<noteq> ''style'') (strings_list p xs))))"
  by (induction x and xs arbitrary: p and p rule: descendants_descendants_list.induct)
     (simp_all add: Let_def)

section \<open>Lemmas: paths, images and the back of a card\<close>

lemma basename_no_slash: "CHR ''/'' \<notin> set (basename p)"
  unfolding basename_def using set_takeWhileD[of "CHR ''/''" "\<lambda>c. c \<noteq> CHR ''/''" "rev p"] by auto

lemma takeWhile_no_slash:
  "CHR ''/'' \<notin> set f \<Longrightarrow>
     takeWhile (\<lambda>c. c \<noteq> CHR ''/'') (rev f @ ys) = rev f @ takeWhile (\<lambda>c. c \<noteq> CHR ''/'') ys"
  by (rule takeWhile_append2) auto

lemma basename_append_slash: "CHR ''/'' \<notin> set f \<Longrightarrow> basename (a @ ''/'' @ f) = f"
  by (simp add: basename_def takeWhile_no_slash)

lemma basename_ends_slash:
  "CHR ''/'' \<notin> set f \<Longrightarrow> a = [] \<or> last a = CHR ''/'' \<Longrightarrow> basename (a @ f) = f"
proof -
  assume f: "CHR ''/'' \<notin> set f" and a: "a = [] \<or> last a = CHR ''/''"
  have "takeWhile (\<lambda>c. c \<noteq> CHR ''/'') (rev a) = []"
    using a by (cases "rev a") (auto simp: last_rev[symmetric] simp del: last_rev)
  with f show ?thesis by (simp add: basename_def takeWhile_no_slash)
qed

lemma basename_path_join: "CHR ''/'' \<notin> set f \<Longrightarrow> basename (path_join a f) = f"
proof -
  assume f: "CHR ''/'' \<notin> set f"
  then have "\<not> (f \<noteq> [] \<and> hd f = CHR ''/'')" by (cases f) auto
  then show ?thesis
    using f basename_append_slash[of f a] basename_ends_slash[of f a]
    by (auto simp: path_join_def)
qed

lemma basename_target: "basename (target A src) = basename (unquote src)"
  unfolding target_def by (rule basename_path_join) (rule basename_no_slash)

lemma has_name_tag_head: "has_name m y \<longleftrightarrow> map_option fst (tag_head y) = Some m"
  by (cases y) auto

lemma has_name_head_after: "has_name m y \<longleftrightarrow> map_option fst (head_after A fs y) = Some m"
  by (cases y) auto

lemma map_filter_transfer:
  assumes "map f xs' = map g xs"
  shows "map f (filter (\<lambda>y. Q (f y)) xs') = map g (filter (\<lambda>y. Q (g y)) xs)"
proof -
  have "map f (filter (\<lambda>y. Q (f y)) xs') = filter Q (map f xs')"
    by (simp add: filter_map comp_def)
  also have "\<dots> = filter Q (map g xs)" using assms by simp
  also have "\<dots> = map g (filter (\<lambda>y. Q (g y)) xs)"
    by (simp add: filter_map comp_def)
  finally show ?thesis .
qed

lemma process_images_descendants:
  "map tag_head (descendants (fst (process_images e A fs))) = map (head_after A fs) (descendants e)"
  by (cases e) (simp_all add: split_beta process_images_heads)

lemma find_all_heads:
  "map tag_head (find_all m (fst (process_images e A fs))) = map (head_after A fs) (find_all m e)"
proof -
  define Q where "Q = (\<lambda>h :: (string \<times> string list option \<times> (string \<times> string) list) option.
    map_option fst h = Some m)"
  have 1: "has_name m y = Q (tag_head y)" for y
    unfolding Q_def by (rule has_name_tag_head)
  have 2: "has_name m y = Q (head_after A fs y)" for y
    unfolding Q_def by (rule has_name_head_after)
  show ?thesis
    unfolding find_all_def
    using map_filter_transfer[OF process_images_descendants[of e A fs], of Q]
    by (simp only: 1[symmetric] 2[symmetric])
qed

lemma head_after_other: "\<not> has_name ''img'' y \<Longrightarrow> head_after A fs y = tag_head y"
  by (cases y) auto

lemma find_all_heads_other:
  assumes "m \<noteq> ''img''"
  shows "map tag_head (find_all m (fst (process_images e A fs))) = map tag_head (find_all m e)"
proof -
  have "map (head_after A fs) (find_all m e) = map tag_head (find_all m e)"
    unfolding find_all_def
    by (rule map_cong[OF refl]) (use assms in \<open>auto simp: has_name_tag_head intro!: head_after_other\<close>)
  then show ?thesis by (simp add: find_all_heads)
qed

lemma img_media_found:
  "img_media A fs y =
     (if has_name ''img'' y \<and> image_found A fs y then [target A (the (get_attr ''src'' y))] else [])"
  by (cases y) (auto simp: process_img_def image_found_def target_def Let_def split: option.splits)


lemma concat_map_if:
  "concat (map (\<lambda>y. if P y then [f y] else []) ys) = map f (filter P ys)"
  by (induction ys) auto

lemma process_images_media_descendants:
  "fst (snd (process_images e A fs)) = concat (map (img_media A fs) (descendants e))"
  by (cases e) (simp_all add: split_beta process_images_media)


lemma media_of_found:
  "fst (snd (process_images e A fs)) =
     map (\<lambda>y. target A (the (get_attr ''src'' y))) (filter (image_found A fs) (find_all ''img'' e))"
proof -
  have "concat (map (img_media A fs) (descendants e)) =
      map (\<lambda>y. target A (the (get_attr ''src'' y)))
        (filter (\<lambda>y. has_name ''img'' y \<and> image_found A fs y) (descendants e))"
    unfolding img_media_found by (rule concat_map_if)
  then show ?thesis
    by (simp add: process_images_media_descendants find_all_def conj_commute)
qed


lemma head_after_found:
  assumes "has_name ''img'' y" and "image_found A fs y"
  shows "map_option (\<lambda>(n, cl, at). map_of at ''src'') (head_after A fs y)
           = Some (Some (basename (target A (the (get_attr ''src'' y)))))"
  using assms
  by (cases y)
     (auto simp: process_img_def image_found_def basename_target target_def[symmetric] Let_def
        update_conv' split: option.splits)


lemma get_attr_tag_head:
  "get_attr k y = (case tag_head y of None \<Rightarrow> None | Some (n, cl, at) \<Rightarrow> map_of at k)"
  by (cases y) auto

lemma zip_heads:
  assumes "map f xs' = map g xs" and "(x, x') \<in> set (zip xs xs')"
  shows "f x' = g x"
proof -
  from assms(1) have len: "length xs' = length xs" by (rule map_eq_imp_length_eq)
  from assms(2) obtain i where i: "i < length xs" "xs ! i = x" "xs' ! i = x'"
    using len by (auto simp: set_zip)
  from assms(1) have "map f xs' ! i = map g xs ! i" by simp
  with i len show ?thesis by simp
qed

lemma zip_filter_map:
  assumes "length xs' = length xs"
      and "\<And>x x'. (x, x') \<in> set (zip xs xs') \<Longrightarrow> P x \<Longrightarrow> h x' = g x"
  shows "map (\<lambda>(x, x'). h x') (filter (\<lambda>(x, x'). P x) (zip xs xs')) = map g (filter P xs)"
  using assms
proof (induction xs' xs rule: list_induct2)
  case Nil
  then show ?case by simp
next
  case (Cons x' xs' x xs)
  then show ?case by auto
qed

lemma parse_callout_back:
  assumes "parse_callout callout A fs k = (Some c, out)"
      and "find_tag ''div'' callout = Some first_div"
  shows "back_html c = to_str (fst (process_images (back_element first_div k) A fs))"
    and "media_files c = fst (snd (process_images (back_element first_div k) A fs))"
    and "out = snd (snd (process_images (back_element first_div k) A fs))"
  using assms
  by (auto simp: parse_callout_def process_media_in_html_def back_element_def split_beta Let_def
      split: option.splits if_splits)


lemma process_images_strings_top:
  "strings p (fst (process_images e A fs)) = strings p e"
  by (cases e) (simp_all add: split_beta process_images_strings)


section \<open>Lemmas: the front element\<close>

lemma extract_hashtags_list_map:
  "fst (extract_hashtags_list k p xs) = map (\<lambda>x. fst (extract_hashtags_node k p x)) xs"
  by (induction xs) (simp_all add: split_beta)

lemma is_tag_extract_hashtags: "is_tag (fst (extract_hashtags_node k p x)) = is_tag x"
  by (cases x) (simp_all add: split_beta Let_def)

lemma extract_hashtags_node_parent:
  "is_tag x \<Longrightarrow> extract_hashtags_node k p x = extract_hashtags_node k q x"
  by (cases x) simp_all

lemma find_map: "List.find P (map f xs) = map_option f (List.find (\<lambda>x. P (f x)) xs)"
  by (induction xs) simp_all

lemma find_is_tag: "List.find is_tag xs = Some x \<Longrightarrow> is_tag x"
  by (induction xs) (auto split: if_splits)

lemma find_first_child_extract:
  "List.find is_tag (children (fst (extract_hashtags d k)))
     = map_option (\<lambda>x. fst (extract_hashtags x k)) (List.find is_tag (children d))"
proof (cases d)
  case (NavigableString sc s)
  then show ?thesis by (simp add: extract_hashtags_def Let_def)
next
  case (Tag n cl at ch)
  have "List.find is_tag (map (\<lambda>x. fst (extract_hashtags_node k n x)) ch)
      = map_option (\<lambda>x. fst (extract_hashtags_node k n x)) (List.find is_tag ch)"
    by (simp add: find_map is_tag_extract_hashtags)
  also have "\<dots> = map_option (\<lambda>x. fst (extract_hashtags_node k [] x)) (List.find is_tag ch)"
  proof (cases "List.find is_tag ch")
    case None
    then show ?thesis by simp
  next
    case (Some x)
    then have "is_tag x" by (rule find_is_tag)
    then have "extract_hashtags_node k n x = extract_hashtags_node k [] x"
      by (rule extract_hashtags_node_parent)
    with Some show ?thesis by simp
  qed
  finally show ?thesis
    using Tag by (simp add: extract_hashtags_def split_beta extract_hashtags_list_map)
qed


section \<open>Lemmas: the exports\<close>

lemma map_filter_mem: "x \<in> set xs \<Longrightarrow> f x = Some y \<Longrightarrow> y \<in> set (List.map_filter f xs)"
  by (force simp: List.map_filter_def)

lemma details_contribution:
  assumes "has_name ''details'' details"
      and "find_tag ''summary'' details = Some summary"
      and "find_tag_class ''div'' ''indented'' details = None"
  shows "contribution A fs k details = Some (get_text_strip summary, [])"
  using assms by (simp add: contribution_def)

lemma export_apkg_deck_of:
  assumes "export_apkg deck sd (Some css_text) style = Inr pkg"
      and "map_of sd name = Some cards"
  shows "(full_deck_name deck name, map (\<lambda>c. (front c, back_html c, tags c)) cards)
           \<in> set (decks pkg)"
proof -
  from assms(2) have "(name, cards) \<in> set sd" by (rule map_of_SomeD)
  then have "(\<lambda>(subdeck_name, cards).
       (full_deck_name deck subdeck_name, map (\<lambda>c. (front c, back_html c, tags c)) cards))
         (name, cards)
      \<in> set (map (\<lambda>(subdeck_name, cards).
           (full_deck_name deck subdeck_name, map (\<lambda>c. (front c, back_html c, tags c)) cards)) sd)"
    unfolding set_map by (rule imageI)
  with assms(1) show ?thesis by (auto simp: export_apkg_def)
qed

lemma export_csv_rows_of:
  "filter (\<lambda>row. hd (tl row) = name) (tl (export_csv deck sd))
     = concat (map (\<lambda>(n, cards).
         map (\<lambda>c. [deck, n, front c, back_html c, join '', '' (tags c)]) cards)
         (filter (\<lambda>e. fst e = name) sd))"
proof -
  have "filter (\<lambda>row. hd (tl row) = name)
          (concat (map (\<lambda>(n, cards).
             map (\<lambda>c. [deck, n, front c, back_html c, join '', '' (tags c)]) cards) sd))
        = concat (map (\<lambda>(n, cards).
             map (\<lambda>c. [deck, n, front c, back_html c, join '', '' (tags c)]) cards)
             (filter (\<lambda>e. fst e = name) sd))"
    by (induction sd) (auto simp: filter_empty_conv)
  then show ?thesis by (simp add: export_csv_def)
qed

lemma distinct_keys_filter:
  "distinct (map fst sd) \<Longrightarrow> map_of sd name = Some v \<Longrightarrow> filter (\<lambda>e. fst e = name) sd = [(name, v)]"
proof (induction sd)
  case Nil
  then show ?case by simp
next
  case (Cons e sd)
  show ?case
  proof (cases "fst e = name")
    case True
    from Cons.prems(1) have "fst e \<notin> fst ` set sd" by simp
    with True have "\<forall>x \<in> set sd. fst x \<noteq> name" by (metis imageI)
    then have "filter (\<lambda>e. fst e = name) sd = []" by (simp add: filter_empty_conv)
    with True Cons.prems show ?thesis by (cases e) auto
  next
    case False
    with Cons show ?thesis by (cases e) auto
  qed
qed

section \<open>Lemmas: hashtags that are removed\<close>

lemma extract_hashtags_remove_strings:
  "strings p (fst (extract_hashtags_node False p x)) = map clean_node (strings p x)"
  "strings_list p (fst (extract_hashtags_list False p xs)) = map clean_node (strings_list p xs)"
  by (induction x and xs arbitrary: p and p rule: descendants_descendants_list.induct)
     (simp_all add: split_beta Let_def clean_node_def)

lemma extract_hashtags_heads:
  "map tag_head (fst (extract_hashtags_node k p x) # descendants (fst (extract_hashtags_node k p x)))
     = map tag_head (x # descendants x)"
  "map tag_head (descendants_list (fst (extract_hashtags_list k p xs)))
     = map tag_head (descendants_list xs)"
  by (induction x and xs arbitrary: p and p rule: descendants_descendants_list.induct)
     (simp_all add: split_beta Let_def)

section \<open>The claims\<close>

subsection \<open>C1: order and uniqueness of the subdecks\<close>

text \<open>
  C1. For every document, the keys of the dictionary that \<open>parse_html_file\<close> returns are
  distinct and stand in the order in which the labels first occur among the children of
  the page body; and the card list of every key is the concatenation, in document order,
  of the cards of all the children with that label. So a label that repeats appends to
  the list it already has, and the cards of a subdeck are in the order of their callouts.
\<close>

theorem subdecks_first_seen_order:
  "distinct (map fst (fst (snd (fst (parse_html_file soup A fs k)))))
   \<and> map fst (fst (snd (fst (parse_html_file soup A fs k))))
       = first_seen (map fst (document_events soup A fs k))
   \<and> (\<forall>name \<in> set (map fst (document_events soup A fs k)).
         map_of (fst (snd (fst (parse_html_file soup A fs k)))) name
           = Some (concat (map snd (filter (\<lambda>e. fst e = name) (document_events soup A fs k)))))"
proof -
  let ?sd = "fst (snd (fst (parse_html_file soup A fs k)))"
  let ?evs = "document_events soup A fs k"
  have sd: "?sd = fold add_group ?evs []"
    unfolding parse_html_file_def document_events_def events_def
    by (simp add: Let_def split_beta process_elements_fold contribution_filter
        split: option.splits)
  have keys: "map fst ?sd = first_seen (map fst ?evs)"
    unfolding sd by (simp add: keys_fold_add_group)
  then have "distinct (map fst ?sd)" by (simp add: distinct_first_seen)
  moreover have "\<forall>name \<in> set (map fst ?evs).
      map_of ?sd name = Some (concat (map snd (filter (\<lambda>e. fst e = name) ?evs)))"
    unfolding sd by (simp add: map_of_fold_add_group)
  ultimately show ?thesis using keys by blast
qed

theorem subdecks_first_seen_order_witness:
  "map fst (fst (snd (fst (parse_html_file doc_repeated ''/a'' {} True)))) = [''B'', ''Default'', ''A'']
   \<and> map_option (map front)
        (map_of (fst (snd (fst (parse_html_file doc_repeated ''/a'' {} True)))) ''B'')
       = Some [''q1'', ''q4'', ''q5'']"
proof -
  let ?evs = "document_events doc_repeated ''/a'' {} True"
  have names: "map fst ?evs = [''B'', ''Default'', ''A'', ''B'']"
    by code_simp
  have fronts: "map front (concat (map snd (filter (\<lambda>e. fst e = ''B'') ?evs)))
      = [''q1'', ''q4'', ''q5'']"
    by code_simp
  have mem: "''B'' \<in> set (map fst ?evs)"
    unfolding names by simp
  from subdecks_first_seen_order[of doc_repeated "''/a''" "{}" True] mem
  have "map fst (fst (snd (fst (parse_html_file doc_repeated ''/a'' {} True))))
          = first_seen (map fst ?evs)"
    and "map_of (fst (snd (fst (parse_html_file doc_repeated ''/a'' {} True)))) ''B''
          = Some (concat (map snd (filter (\<lambda>e. fst e = ''B'') ?evs)))"
    by blast+
  then show ?thesis
    by (simp add: names fronts)
qed

subsection \<open>C7: the tags of a card\<close>

text \<open>
  C7. The tags of every card that \<open>parse_callout\<close> produces are in lower case, without
  duplicates, and sorted ascending in the lexicographic order of strings.
\<close>

theorem tags_lower_unique_sorted:
  assumes "parse_callout callout A fs k = (Some c, out)"
  shows "sorted (tags c) \<and> distinct (tags c) \<and> (\<forall>t \<in> set (tags c). lower t = t)"
proof -
  from assms obtain tgs where t: "tags c = sort (remdups (map lower tgs))"
    using parse_callout_tags by blast
  have "sorted (tags c)" and "distinct (tags c)"
    unfolding t by simp_all
  moreover have "\<forall>t \<in> set (tags c). lower t = t"
    unfolding t by (auto simp: lower_idem)
  ultimately show ?thesis by simp
qed

theorem tags_lower_unique_sorted_witness:
  "parse_callout callout_tags ''/a'' {} True
     = (Some \<lparr>front = ''Q #b #A'', back_html = ''<div><p>why #b</p></div>'',
              tags = [''a'', ''b''], media_files = []\<rparr>, [])
   \<and> sorted [''a'', ''b''] \<and> distinct [''a'', ''b'']
   \<and> lower ''a'' = ''a'' \<and> lower ''b'' = ''b''"
proof -
  have run: "parse_callout callout_tags ''/a'' {} True
     = (Some \<lparr>front = ''Q #b #A'', back_html = ''<div><p>why #b</p></div>'',
              tags = [''a'', ''b''], media_files = []\<rparr>, [])"
    by code_simp
  from tags_lower_unique_sorted[OF run] run show ?thesis by simp
qed

subsection \<open>C8: hashtags that are kept\<close>

text \<open>
  C8. With \<open>keep_tags\<close> true, \<open>extract_hashtags\<close> returns the element as it was, every text
  node untouched, and still collects the tags: the tokens of every text node outside
  \<open>script\<close> and \<open>style\<close>, in lower case, in document order.
\<close>

theorem keep_tags_leaves_text:
  "extract_hashtags element True =
     (element,
      concat (map (\<lambda>(q, sc, s). map lower (findall_hashtags s))
        (filter (\<lambda>(q, sc, s). q \<noteq> ''script'' \<and> q \<noteq> ''style'') (strings [] element))))"
  unfolding extract_hashtags_def by (rule extract_hashtags_keep)

theorem keep_tags_leaves_text_witness:
  "extract_hashtags div_tags True = (div_tags, [''math'', ''b_2''])"
proof -
  have "concat (map (\<lambda>(q, sc, s). map lower (findall_hashtags s))
        (filter (\<lambda>(q, sc, s). q \<noteq> ''script'' \<and> q \<noteq> ''style'') (strings [] div_tags)))
       = [''math'', ''b_2'']"
    by code_simp
  with keep_tags_leaves_text[of div_tags] show ?thesis by simp
qed

subsection \<open>C2: when \<open>parse_callout\<close> returns nothing\<close>

text \<open>
  C2, as stated, fails: the container need not be a child of the callout. Here the only
  \<open>div\<close> lies inside a \<open>span\<close>, the callout has no \<open>div\<close> child, and a card is returned.
\<close>

theorem container_not_direct_child_counterexample:
  "filter (has_name ''div'') (children callout_deep) = []
   \<and> parse_callout callout_deep ''/a'' {} True
       = (Some \<lparr>front = ''Q'', back_html = ''<div><p>A</p></div>'', tags = [], media_files = []\<rparr>, [])"
  by code_simp

text \<open>
  C2, amended. \<open>parse_callout\<close> returns no card exactly when the callout has no \<open>div\<close>
  below it at any depth, or the first such \<open>div\<close> in document order has no element among
  its children, or the text of the first element child, as \<open>get_text(strip=True)\<close> gives
  it after the hashtag extraction, is empty. In every other case it returns a card. The
  text of an element is empty exactly when every text node below it whose class counts
  as text of the element (for an ordinary element plain strings and CDATA sections; not
  comments, and not the strings the parser made inside \<open>script\<close>, \<open>style\<close>, \<open>template\<close>,
  \<open>rt\<close> and \<open>rp\<close> elements) is empty once stripped of whitespace.
\<close>

theorem parse_callout_none_iff:
  "(fst (parse_callout callout A fs k) = None \<longleftrightarrow>
     (case find_tag ''div'' callout of
        None \<Rightarrow> True
      | Some first_div \<Rightarrow>
          (case List.find is_tag (children first_div) of
             None \<Rightarrow> True
           | Some first_element \<Rightarrow> get_text_strip (fst (extract_hashtags first_element k)) = [])))
   \<and> (\<forall>n cl at ch.
         get_text_strip (Tag n cl at ch) = [] \<longleftrightarrow>
           (\<forall>(p, sc, s) \<in> set (strings_list n ch).
              sc \<in> set (interesting_string_types n) \<longrightarrow> strip s = []))"
proof
  show "fst (parse_callout callout A fs k) = None \<longleftrightarrow>
     (case find_tag ''div'' callout of
        None \<Rightarrow> True
      | Some first_div \<Rightarrow>
          (case List.find is_tag (children first_div) of
             None \<Rightarrow> True
           | Some first_element \<Rightarrow> get_text_strip (fst (extract_hashtags first_element k)) = []))"
  proof (cases "find_tag ''div'' callout")
    case None
    then show ?thesis by (simp add: parse_callout_def)
  next
    case (Some d)
    show ?thesis
    proof (cases "List.find is_tag (children d)")
      case None
      with Some find_first_child_extract[of d k] show ?thesis
        by (simp add: parse_callout_def split_beta)
    next
      case e: (Some e)
      with Some find_first_child_extract[of d k] show ?thesis
        by (simp add: parse_callout_def split_beta Let_def)
    qed
  qed
  show "\<forall>n cl at ch.
         get_text_strip (Tag n cl at ch) = [] \<longleftrightarrow>
           (\<forall>(p, sc, s) \<in> set (strings_list n ch).
              sc \<in> set (interesting_string_types n) \<longrightarrow> strip s = [])"
    by (auto simp: split_beta)
qed

theorem parse_callout_none_iff_witness:
  "fst (parse_callout callout_text_only ''/a'' {} True) = None
   \<and> fst (parse_callout callout_tag_front ''/a'' {} False) = None
   \<and> fst (parse_callout callout_tag_front ''/a'' {} True) \<noteq> None
   \<and> fst (parse_callout callout_rt_front ''/a'' {} True) = None
   \<and> fst (parse_callout callout_nbsp_front ''/a'' {} True) = None
   \<and> fst (parse_callout callout_comment_front ''/a'' {} True) = None"
proof -
  have 1: "(case find_tag ''div'' callout_text_only of
        None \<Rightarrow> True
      | Some first_div \<Rightarrow>
          (case List.find is_tag (children first_div) of
             None \<Rightarrow> True
           | Some first_element \<Rightarrow> get_text_strip (fst (extract_hashtags first_element True)) = []))"
    by code_simp
  have 2: "(case find_tag ''div'' callout_tag_front of
        None \<Rightarrow> True
      | Some first_div \<Rightarrow>
          (case List.find is_tag (children first_div) of
             None \<Rightarrow> True
           | Some first_element \<Rightarrow> get_text_strip (fst (extract_hashtags first_element False)) = []))"
    by code_simp
  have 3: "\<not> (case find_tag ''div'' callout_tag_front of
        None \<Rightarrow> True
      | Some first_div \<Rightarrow>
          (case List.find is_tag (children first_div) of
             None \<Rightarrow> True
           | Some first_element \<Rightarrow> get_text_strip (fst (extract_hashtags first_element True)) = []))"
    by code_simp
  have 4: "(case find_tag ''div'' callout_rt_front of
        None \<Rightarrow> True
      | Some first_div \<Rightarrow>
          (case List.find is_tag (children first_div) of
             None \<Rightarrow> True
           | Some first_element \<Rightarrow> get_text_strip (fst (extract_hashtags first_element True)) = []))"
    by code_simp
  have 5: "(case find_tag ''div'' callout_nbsp_front of
        None \<Rightarrow> True
      | Some first_div \<Rightarrow>
          (case List.find is_tag (children first_div) of
             None \<Rightarrow> True
           | Some first_element \<Rightarrow> get_text_strip (fst (extract_hashtags first_element True)) = []))"
    by code_simp
  have 6: "(case find_tag ''div'' callout_comment_front of
        None \<Rightarrow> True
      | Some first_div \<Rightarrow>
          (case List.find is_tag (children first_div) of
             None \<Rightarrow> True
           | Some first_element \<Rightarrow> get_text_strip (fst (extract_hashtags first_element True)) = []))"
    by code_simp
  have a: "fst (parse_callout callout_text_only ''/a'' {} True) = None"
    using conjunct1[OF parse_callout_none_iff[of callout_text_only "''/a''" "{}" True]] 1 by simp
  have b: "fst (parse_callout callout_tag_front ''/a'' {} False) = None"
    using conjunct1[OF parse_callout_none_iff[of callout_tag_front "''/a''" "{}" False]] 2 by simp
  have c: "fst (parse_callout callout_tag_front ''/a'' {} True) \<noteq> None"
    using conjunct1[OF parse_callout_none_iff[of callout_tag_front "''/a''" "{}" True]] 3 by simp
  have d: "fst (parse_callout callout_rt_front ''/a'' {} True) = None"
    using conjunct1[OF parse_callout_none_iff[of callout_rt_front "''/a''" "{}" True]] 4 by simp
  have e: "fst (parse_callout callout_nbsp_front ''/a'' {} True) = None"
    using conjunct1[OF parse_callout_none_iff[of callout_nbsp_front "''/a''" "{}" True]] 5 by simp
  have f: "fst (parse_callout callout_comment_front ''/a'' {} True) = None"
    using conjunct1[OF parse_callout_none_iff[of callout_comment_front "''/a''" "{}" True]] 6
    by simp
  from a b c d e f show ?thesis by simp
qed

subsection \<open>C3: rewritten image sources and the media list\<close>

text \<open>
  C3. For every card produced: the back is the markup of the container after the images
  were processed; the container has as many images afterwards as before; and the sources
  of the images that were rewritten, read off the processed container in document order,
  are exactly the last segments of the entries of the media list, in the same order. So
  rewritten references and media entries correspond one to one. (No sound marker is ever
  written: see C9.)
\<close>

theorem rewritten_images_match_media:
  assumes "parse_callout callout A fs k = (Some c, out)"
      and "find_tag ''div'' callout = Some first_div"
      and "process_images (back_element first_div k) A fs = (element', m, printed)"
  shows "back_html c = to_str element' \<and> media_files c = m
       \<and> length (find_all ''img'' element') = length (find_all ''img'' (back_element first_div k))
       \<and> map (\<lambda>f. Some (basename f)) (media_files c)
           = map (\<lambda>(x, x'). get_attr ''src'' x')
               (filter (\<lambda>(x, x'). image_found A fs x)
                  (zip (find_all ''img'' (back_element first_div k)) (find_all ''img'' element')))"
proof -
  let ?rest = "back_element first_div k"
  let ?xs = "find_all ''img'' ?rest"
  let ?xs' = "find_all ''img'' element'"
  from assms(3) have e': "element' = fst (process_images ?rest A fs)"
    and m: "m = fst (snd (process_images ?rest A fs))" by simp_all
  have heads: "map tag_head ?xs' = map (head_after A fs) ?xs"
    unfolding e' by (rule find_all_heads)
  then have len: "length ?xs' = length ?xs" by (rule map_eq_imp_length_eq)
  have src: "get_attr ''src'' x' = Some (basename (target A (the (get_attr ''src'' x))))"
    if "(x, x') \<in> set (zip ?xs ?xs')" and "image_found A fs x" for x x'
  proof -
    from that(1) have "x \<in> set ?xs" by (rule set_zip_leftD)
    then have img: "has_name ''img'' x" by (simp add: find_all_def)
    from heads that(1) have "tag_head x' = head_after A fs x" by (rule zip_heads)
    with head_after_found[OF img that(2)] show ?thesis
      by (auto simp: get_attr_tag_head split: option.splits)
  qed
  have "map (\<lambda>(x, x'). get_attr ''src'' x') (filter (\<lambda>(x, x'). image_found A fs x) (zip ?xs ?xs'))
      = map (\<lambda>x. Some (basename (target A (the (get_attr ''src'' x))))) (filter (image_found A fs) ?xs)"
    using len src by (rule zip_filter_map)
  also have "\<dots> = map (\<lambda>f. Some (basename f)) m"
    unfolding m media_of_found by (simp add: comp_def)
  finally have "map (\<lambda>f. Some (basename f)) m
      = map (\<lambda>(x, x'). get_attr ''src'' x') (filter (\<lambda>(x, x'). image_found A fs x) (zip ?xs ?xs'))"
    by (rule sym)
  moreover have "back_html c = to_str element'" and "media_files c = m"
    using parse_callout_back[OF assms(1,2)] e' m by simp_all
  ultimately show ?thesis using len by simp
qed

theorem rewritten_images_match_media_witness:
  "parse_callout callout_images ''/assets'' assets_example True
     = (Some card_images, [Missing_media ''/assets/missing.png''])
   \<and> map (\<lambda>f. Some (basename f)) (media_files card_images) = [Some ''dia gram.png'']
   \<and> map (get_attr ''src'') (find_all ''img'' back_images_after)
       = [Some ''dia gram.png'', Some ''pics/missing.png'']"
proof -
  have run: "parse_callout callout_images ''/assets'' assets_example True
     = (Some card_images, [Missing_media ''/assets/missing.png''])"
    by code_simp
  have div: "find_tag ''div'' callout_images = Some div_images"
    by code_simp
  have rest: "back_element div_images True = back_images"
    by code_simp
  have pi: "process_images (back_element div_images True) ''/assets'' assets_example
     = (back_images_after, [''/assets/dia gram.png''], [Missing_media ''/assets/missing.png''])"
    by code_simp
  have sel: "map (\<lambda>(x, x'). get_attr ''src'' x')
               (filter (\<lambda>(x, x'). image_found ''/assets'' assets_example x)
                  (zip (find_all ''img'' back_images) (find_all ''img'' back_images_after)))
             = [Some ''dia gram.png'']"
    by code_simp
  have srcs: "map (get_attr ''src'') (find_all ''img'' back_images_after)
       = [Some ''dia gram.png'', Some ''pics/missing.png'']"
    by code_simp
  from rewritten_images_match_media[OF run div pi]
  have "map (\<lambda>f. Some (basename f)) (media_files card_images)
           = map (\<lambda>(x, x'). get_attr ''src'' x')
               (filter (\<lambda>(x, x'). image_found ''/assets'' assets_example x)
                  (zip (find_all ''img'' back_images) (find_all ''img'' back_images_after)))"
    unfolding rest by blast
  with sel run srcs show ?thesis by simp
qed

subsection \<open>C4: an image whose file is missing\<close>



subsection \<open>C9: links to audio files\<close>

text \<open>
  C9, as stated, fails: the media list may receive an audio file. Audio links are not
  processed, but \<open>process_images\<close> takes every image element whatever the extension of its
  source; here an image element points to \<open>rec.mp3\<close>, the file exists, and it enters the
  media list.
\<close>

theorem image_with_audio_source_counterexample:
  "parse_callout callout_img_audio ''/assets'' assets_example True
     = (Some \<lparr>front = ''Q'',
              back_html = to_str (Tag ''div'' None [] [Tag ''img'' None [(''src'', ''rec.mp3'')] []]),
              tags = [], media_files = [''/assets/rec.mp3'']\<rparr>, [])
   \<and> is_audio ''/assets/rec.mp3''"
  by code_simp

text \<open>
  C9, amended. The media processing that \<open>parse_callout\<close> performs is \<open>process_images\<close>
  alone (the call of \<open>process_audio_files\<close> is commented out). For every card: the elements
  of the back with any name other than \<open>img\<close>, anchors and spans among them, are after the
  processing the same in number, order, name, classes and attributes as before, so no
  anchor is replaced; no text node is changed, so no sound marker is written; and the
  media list holds exactly the files of the image elements that were found, in document
  order, whatever their extension: an anchor never adds a file to it.
\<close>

theorem audio_links_pass_through:
  assumes "parse_callout callout A fs k = (Some c, out)"
      and "find_tag ''div'' callout = Some first_div"
      and "process_images (back_element first_div k) A fs = (element', m, printed)"
  shows "back_html c = to_str element'
       \<and> (\<forall>n. n \<noteq> ''img'' \<longrightarrow>
            map tag_head (find_all n element') = map tag_head (find_all n (back_element first_div k)))
       \<and> strings [] element' = strings [] (back_element first_div k)
       \<and> media_files c =
            map (\<lambda>y. target A (the (get_attr ''src'' y)))
              (filter (image_found A fs) (find_all ''img'' (back_element first_div k)))"
proof -
  let ?rest = "back_element first_div k"
  from assms(3) have e': "element' = fst (process_images ?rest A fs)"
    and m: "m = fst (snd (process_images ?rest A fs))" by simp_all
  have "back_html c = to_str element'" and mc: "media_files c = m"
    using parse_callout_back[OF assms(1,2)] e' m by simp_all
  moreover have "\<forall>n. n \<noteq> ''img'' \<longrightarrow>
      map tag_head (find_all n element') = map tag_head (find_all n ?rest)"
    unfolding e' using find_all_heads_other by blast
  moreover have "strings [] element' = strings [] ?rest"
    unfolding e' by (rule process_images_strings_top)
  moreover have "media_files c =
      map (\<lambda>y. target A (the (get_attr ''src'' y))) (filter (image_found A fs) (find_all ''img'' ?rest))"
    unfolding mc m by (rule media_of_found)
  ultimately show ?thesis by blast
qed


theorem audio_links_pass_through_witness:
  "map tag_head (find_all ''a'' back_images_after) = [Some (''a'', None, [(''href'', ''rec.mp3'')])]
   \<and> find_all ''span'' back_images_after = []
   \<and> strings [] back_images_after = [(''p'', Plain, ''A''), (''a'', Plain, ''listen'')]
   \<and> ''/assets/rec.mp3'' \<in> assets_example
   \<and> media_files card_images = [''/assets/dia gram.png'']"
proof -
  have run: "parse_callout callout_images ''/assets'' assets_example True
     = (Some card_images, [Missing_media ''/assets/missing.png''])"
    by code_simp
  have div: "find_tag ''div'' callout_images = Some div_images"
    by code_simp
  have rest: "back_element div_images True = back_images"
    by code_simp
  have pi: "process_images (back_element div_images True) ''/assets'' assets_example
     = (back_images_after, [''/assets/dia gram.png''], [Missing_media ''/assets/missing.png''])"
    by code_simp
  have a: "map tag_head (find_all ''a'' back_images) = [Some (''a'', None, [(''href'', ''rec.mp3'')])]"
    by code_simp
  have s: "map tag_head (find_all ''span'' back_images) = []"
    by code_simp
  have t: "strings [] back_images = [(''p'', Plain, ''A''), (''a'', Plain, ''listen'')]"
    by code_simp
  have f: "map (\<lambda>y. target ''/assets'' (the (get_attr ''src'' y)))
              (filter (image_found ''/assets'' assets_example) (find_all ''img'' back_images))
            = [''/assets/dia gram.png'']"
    by code_simp
  have ne: "''a'' \<noteq> ''img''" "''span'' \<noteq> ''img''" by simp_all
  note inst = audio_links_pass_through[OF run div pi, unfolded rest]
  have others: "\<forall>n. n \<noteq> ''img'' \<longrightarrow>
      map tag_head (find_all n back_images_after) = map tag_head (find_all n back_images)"
    by (rule conjunct1[OF conjunct2[OF inst]])
  have 1: "map tag_head (find_all ''a'' back_images_after) = map tag_head (find_all ''a'' back_images)"
    by (rule others[rule_format, OF ne(1)])
  have 2: "map tag_head (find_all ''span'' back_images_after)
             = map tag_head (find_all ''span'' back_images)"
    by (rule others[rule_format, OF ne(2)])
  have 3: "strings [] back_images_after = strings [] back_images"
    by (rule conjunct1[OF conjunct2[OF conjunct2[OF inst]]])
  have 4: "media_files card_images =
            map (\<lambda>y. target ''/assets'' (the (get_attr ''src'' y)))
              (filter (image_found ''/assets'' assets_example) (find_all ''img'' back_images))"
    by (rule conjunct2[OF conjunct2[OF conjunct2[OF inst]]])
  have 5: "''/assets/rec.mp3'' \<in> assets_example"
    by (simp add: assets_example_def)
  from 2 have 6: "find_all ''span'' back_images_after = []"
    unfolding s by simp
  from 1 3 4 5 6 show ?thesis
    unfolding a t f by simp
qed

subsection \<open>C6: a document without an article or without a page body\<close>

text \<open>
  C6, as stated, fails: an article with a heading and no page body gives the heading as
  the deck name, not the constant default.
\<close>

theorem no_page_body_keeps_title_counterexample:
  "find_tag ''article'' doc_no_body = Some article_no_body
   \<and> find_tag_class ''div'' ''page-body'' article_no_body = None
   \<and> parse_html_file doc_no_body ''/a'' {} True = ((''My Deck'', [], Some []), [])"
  by code_simp

text \<open>
  C6, amended. A document without an article gives no subdecks and the constant name
  \<open>Notion Deck\<close>. A document whose article has no page body gives no subdecks and the
  deck name of the article: the text of its first heading inside a header, the constant
  when there is none. Neither prints anything nor fails.
\<close>

theorem no_article_or_no_page_body:
  "(find_tag ''article'' soup = None \<longrightarrow>
      parse_html_file soup A fs k = ((''Notion Deck'', [], extract_css_from_html soup), []))
   \<and> (\<forall>article. find_tag ''article'' soup = Some article
          \<and> find_tag_class ''div'' ''page-body'' article = None \<longrightarrow>
        parse_html_file soup A fs k =
          (((case select_one_header_h1 article of
               None \<Rightarrow> ''Notion Deck''
             | Some header \<Rightarrow> get_text_strip header),
            [], extract_css_from_html soup), []))"
  by (simp add: parse_html_file_def Let_def)

theorem no_article_or_no_page_body_witness:
  "parse_html_file doc_no_article ''/a'' {} True = ((''Notion Deck'', [], Some []), [])
   \<and> parse_html_file doc_no_body ''/a'' {} True = ((''My Deck'', [], Some []), [])"
proof -
  have a: "find_tag ''article'' doc_no_article = None" by code_simp
  have css: "extract_css_from_html doc_no_article = Some []" by code_simp
  have b: "find_tag ''article'' doc_no_body = Some article_no_body
      \<and> find_tag_class ''div'' ''page-body'' article_no_body = None" by code_simp
  have css': "extract_css_from_html doc_no_body = Some []" by code_simp
  have h: "(case select_one_header_h1 article_no_body of
               None \<Rightarrow> ''Notion Deck''
             | Some header \<Rightarrow> get_text_strip header) = ''My Deck''" by code_simp
  from no_article_or_no_page_body[of doc_no_article "''/a''" "{}" True] a css
  have 1: "parse_html_file doc_no_article ''/a'' {} True = ((''Notion Deck'', [], Some []), [])"
    by simp
  from no_article_or_no_page_body[of doc_no_body "''/a''" "{}" True] b
  have "parse_html_file doc_no_body ''/a'' {} True =
          (((case select_one_header_h1 article_no_body of
               None \<Rightarrow> ''Notion Deck''
             | Some header \<Rightarrow> get_text_strip header),
            [], extract_css_from_html doc_no_body), [])"
    by blast
  with h css' 1 show ?thesis by simp
qed

subsection \<open>C10: a section without an indented region\<close>

text \<open>
  C10, as stated, fails for the CSV export: the label of a section without an indented
  region is a key of the dictionary, with no cards, and the CSV export has no row for it.
\<close>

theorem empty_subdeck_not_in_csv_counterexample:
  "map (\<lambda>(name, cards). (name, length cards))
       (fst (snd (fst (parse_html_file doc_empty_section ''/a'' {} True))))
     = [(''Empty'', 0), (''Default'', 1)]
   \<and> export_csv ''Deck'' (fst (snd (fst (parse_html_file doc_empty_section ''/a'' {} True))))
     = [[''Deck'', ''Subdeck'', ''Front'', ''Back'', ''Tags''],
        [''Deck'', ''Default'', ''q'', ''<div><p>a</p></div>'', '''']]"
  by code_simp

text \<open>
  C10, amended. For a \<open>details\<close> child of the page body with a summary and no indented
  region: \<open>process_details_subdeck\<close> looks the label up or inserts it and does nothing else,
  so a new label is appended with an empty card list; the label is a key of the
  dictionary that \<open>parse_html_file\<close> returns. The package export, given a stylesheet that
  is a string, makes a deck with the full name of the label and one note for every card
  of the key, so a deck without notes while the key has no cards; given \<open>None\<close> as the
  stylesheet it raises \<open>TypeError\<close> and makes no deck. The CSV export writes no row for the
  key while it has no cards.
\<close>

theorem details_without_indented_region:
  assumes "find_tag ''article'' soup = Some article"
      and "find_tag_class ''div'' ''page-body'' article = Some page_body"
      and "details \<in> set (children page_body)"
      and "has_name ''details'' details"
      and "find_tag ''summary'' details = Some summary"
      and "find_tag_class ''div'' ''indented'' details = None"
  shows "process_details_subdeck details A fs k (sd0, out0)
           = (ensure_key (get_text_strip summary) sd0, out0)
       \<and> (get_text_strip summary \<notin> set (map fst sd0) \<longrightarrow>
            ensure_key (get_text_strip summary) sd0 = sd0 @ [(get_text_strip summary, [])])
       \<and> get_text_strip summary \<in> set (map fst (fst (snd (fst (parse_html_file soup A fs k)))))
       \<and> export_apkg deck (fst (snd (fst (parse_html_file soup A fs k)))) None style
            = Inl TypeError
       \<and> (\<forall>css_text. \<exists>pkg.
            export_apkg deck (fst (snd (fst (parse_html_file soup A fs k)))) (Some css_text) style
              = Inr pkg
            \<and> (\<forall>cards.
                 map_of (fst (snd (fst (parse_html_file soup A fs k)))) (get_text_strip summary)
                   = Some cards \<longrightarrow>
                 (full_deck_name deck (get_text_strip summary),
                  map (\<lambda>c. (front c, back_html c, tags c)) cards) \<in> set (decks pkg)))
       \<and> (map_of (fst (snd (fst (parse_html_file soup A fs k)))) (get_text_strip summary) = Some [] \<longrightarrow>
            filter (\<lambda>row. hd (tl row) = get_text_strip summary)
              (tl (export_csv deck (fst (snd (fst (parse_html_file soup A fs k)))))) = [])"
proof -
  let ?name = "get_text_strip summary"
  let ?sd = "fst (snd (fst (parse_html_file soup A fs k)))"
  let ?evs = "document_events soup A fs k"
  have 1: "process_details_subdeck details A fs k (sd0, out0) = (ensure_key ?name sd0, out0)"
    using assms(5,6) by (simp add: process_details_subdeck_def)
  have 2: "?name \<notin> set (map fst sd0) \<longrightarrow> ensure_key ?name sd0 = sd0 @ [(?name, [])]"
    by (simp add: ensure_key_def)
  have sd: "?sd = fold add_group ?evs []"
    unfolding parse_html_file_def document_events_def events_def
    by (simp add: Let_def split_beta process_elements_fold contribution_filter
        split: option.splits)
  have "contribution A fs k details = Some (?name, [])"
    using assms(4-6) by (rule details_contribution)
  with assms(3) have "(?name, []) \<in> set (events page_body A fs k)"
    unfolding events_def by (rule map_filter_mem)
  then have "(?name, []) \<in> set ?evs"
    using assms(1,2) by (simp add: document_events_def)
  then have "?name \<in> set (map fst ?evs)" by force
  then have 3: "?name \<in> set (map fst ?sd)"
    unfolding sd by (simp add: keys_fold_add_group set_first_seen)
  have 4: "export_apkg deck ?sd None style = Inl TypeError"
    by (simp add: export_apkg_def)
  have 5: "\<forall>css_text. \<exists>pkg. export_apkg deck ?sd (Some css_text) style = Inr pkg
            \<and> (\<forall>cards. map_of ?sd ?name = Some cards \<longrightarrow>
                 (full_deck_name deck ?name, map (\<lambda>c. (front c, back_html c, tags c)) cards)
                   \<in> set (decks pkg))"
  proof
    fix css_text
    obtain pkg where pkg: "export_apkg deck ?sd (Some css_text) style = Inr pkg"
      by (simp add: export_apkg_def)
    have "\<forall>cards. map_of ?sd ?name = Some cards \<longrightarrow>
        (full_deck_name deck ?name, map (\<lambda>c. (front c, back_html c, tags c)) cards)
          \<in> set (decks pkg)"
      using export_apkg_deck_of[OF pkg] by blast
    with pkg show "\<exists>pkg. export_apkg deck ?sd (Some css_text) style = Inr pkg
            \<and> (\<forall>cards. map_of ?sd ?name = Some cards \<longrightarrow>
                 (full_deck_name deck ?name, map (\<lambda>c. (front c, back_html c, tags c)) cards)
                   \<in> set (decks pkg))"
      by blast
  qed
  have d: "distinct (map fst ?sd)"
    unfolding sd by (simp add: keys_fold_add_group distinct_first_seen)
  have 6: "map_of ?sd ?name = Some [] \<longrightarrow>
      filter (\<lambda>row. hd (tl row) = ?name) (tl (export_csv deck ?sd)) = []"
  proof
    assume "map_of ?sd ?name = Some []"
    with d have "filter (\<lambda>e. fst e = ?name) ?sd = [(?name, [])]"
      by (rule distinct_keys_filter)
    then show "filter (\<lambda>row. hd (tl row) = ?name) (tl (export_csv deck ?sd)) = []"
      by (simp add: export_csv_rows_of)
  qed
  from 1 2 3 4 5 6 show ?thesis by blast
qed

theorem details_without_indented_region_witness:
  "process_details_subdeck details_empty ''/a'' {} True ([], []) = ([(''Empty'', [])], [])
   \<and> ''Empty'' \<in> set (map fst (fst (snd (fst (parse_html_file doc_empty_section ''/a'' {} True)))))
   \<and> export_apkg ''Deck'' (fst (snd (fst (parse_html_file doc_empty_section ''/a'' {} True))))
        None ''.card {}'' = Inl TypeError
   \<and> map_option decks (projr_option
        (export_apkg ''Deck'' (fst (snd (fst (parse_html_file doc_empty_section ''/a'' {} True))))
           (Some []) ''.card {}''))
       = Some [(''Deck::Empty'', []), (''Deck'', [(''q'', ''<div><p>a</p></div>'', [])])]
   \<and> filter (\<lambda>row. hd (tl row) = ''Empty'')
        (tl (export_csv ''Deck'' (fst (snd (fst (parse_html_file doc_empty_section ''/a'' {} True))))))
       = []"
proof -
  let ?article = "article_of [details_empty, qa ''q'' ''a'']"
  let ?body = "page_body_of [details_empty, qa ''q'' ''a'']"
  let ?summary = "Tag ''summary'' None [] [NavigableString Plain ''Empty'']"
  let ?sd = "fst (snd (fst (parse_html_file doc_empty_section ''/a'' {} True)))"
  have a: "find_tag ''article'' doc_empty_section = Some ?article" by code_simp
  have b: "find_tag_class ''div'' ''page-body'' ?article = Some ?body" by code_simp
  have c: "details_empty \<in> set (children ?body)" by code_simp
  have d: "has_name ''details'' details_empty" by code_simp
  have e: "find_tag ''summary'' details_empty = Some ?summary" by code_simp
  have f: "find_tag_class ''div'' ''indented'' details_empty = None" by code_simp
  have n: "get_text_strip ?summary = ''Empty''" by code_simp
  have g: "map_of ?sd ''Empty'' = Some []" by code_simp
  have i: "ensure_key ''Empty'' [] = [(''Empty'', [])]" by code_simp
  have ds: "map_option decks (projr_option (export_apkg ''Deck'' ?sd (Some []) ''.card {}''))
       = Some [(''Deck::Empty'', []), (''Deck'', [(''q'', ''<div><p>a</p></div>'', [])])]"
    by code_simp
  note inst = details_without_indented_region[OF a b c d e f,
      of "''/a''" "{}" True "[]" "[]" "''Deck''" "''.card {}''", unfolded n i]
  have 1: "process_details_subdeck details_empty ''/a'' {} True ([], []) = ([(''Empty'', [])], [])"
    by (rule conjunct1[OF inst])
  have 3: "''Empty'' \<in> set (map fst ?sd)"
    by (rule conjunct1[OF conjunct2[OF conjunct2[OF inst]]])
  have 4: "export_apkg ''Deck'' ?sd None ''.card {}'' = Inl TypeError"
    by (rule conjunct1[OF conjunct2[OF conjunct2[OF conjunct2[OF inst]]]])
  have 6: "map_of ?sd ''Empty'' = Some [] \<longrightarrow>
      filter (\<lambda>row. hd (tl row) = ''Empty'') (tl (export_csv ''Deck'' ?sd)) = []"
    by (rule conjunct2[OF conjunct2[OF conjunct2[OF conjunct2[OF conjunct2[OF inst]]]]])
  from 1 3 4 ds 6[rule_format, OF g] show ?thesis by simp
qed

subsection \<open>C5: hashtags that are removed\<close>

text \<open>
  C5, as stated, fails. Here no text node holds a whole token, so nothing is cleaned: the
  front keeps its run of two spaces, and the front joined from two text nodes holds the
  token \<open>#x\<close>.
\<close>

theorem remove_tags_front_counterexample:
  "parse_callout callout_spaces ''/a'' {} False
     = (Some \<lparr>front = ''a  b #x'', back_html = ''<div><p>A</p></div>'', tags = [],
              media_files = []\<rparr>, [])
   \<and> space_run ''a  b #x''
   \<and> findall_hashtags ''a  b #x'' = [''x'']"
  by code_simp

text \<open>
  C5, amended. With \<open>keep_tags\<close> false, \<open>extract_hashtags\<close> replaces every text node outside
  \<open>script\<close> and \<open>style\<close> that holds at least one token by its cleaned text (a plain
  string, whatever the class of the node was), and leaves
  every other text node and every element as it is. The cleaned text holds no token and
  no two whitespace characters in a row, and neither starts nor ends with whitespace. So
  afterwards no text node outside \<open>script\<close> and \<open>style\<close> holds a token.
\<close>

theorem remove_tags_cleans_text_nodes:
  "strings [] (fst (extract_hashtags element False))
     = map (\<lambda>(q, sc, s).
         if q = ''script'' \<or> q = ''style'' \<or> findall_hashtags s = [] then (q, sc, s)
         else (q, Plain, cleaned_text s))
         (strings [] element)
   \<and> (\<forall>s. findall_hashtags (cleaned_text s) = [] \<and> \<not> space_run (cleaned_text s)
          \<and> (cleaned_text s \<noteq> [] \<longrightarrow>
                \<not> is_space (hd (cleaned_text s)) \<and> \<not> is_space (last (cleaned_text s))))
   \<and> (\<forall>(q, sc, s) \<in> set (strings [] (fst (extract_hashtags element False))).
          q \<noteq> ''script'' \<and> q \<noteq> ''style'' \<longrightarrow> findall_hashtags s = [])
   \<and> map tag_head (descendants (fst (extract_hashtags element False)))
       = map tag_head (descendants element)"
proof -
  let ?e' = "fst (extract_hashtags element False)"
  have 1: "strings [] ?e' = map clean_node (strings [] element)"
    unfolding extract_hashtags_def by (rule extract_hashtags_remove_strings)
  have 2: "\<forall>s. findall_hashtags (cleaned_text s) = [] \<and> \<not> space_run (cleaned_text s)
          \<and> (cleaned_text s \<noteq> [] \<longrightarrow>
                \<not> is_space (hd (cleaned_text s)) \<and> \<not> is_space (last (cleaned_text s)))"
    using cleaned_text_clean by blast
  have 3: "\<forall>(q, sc, s) \<in> set (strings [] ?e'). q \<noteq> ''script'' \<and> q \<noteq> ''style'' \<longrightarrow> findall_hashtags s = []"
    unfolding 1 using cleaned_text_clean by (auto simp: clean_node_def split: if_splits)
  have "map tag_head (?e' # descendants ?e') = map tag_head (element # descendants element)"
    unfolding extract_hashtags_def by (rule extract_hashtags_heads)
  then have 4: "map tag_head (descendants ?e') = map tag_head (descendants element)" by simp
  from 1 2 3 4 show ?thesis unfolding clean_node_def by blast
qed

theorem remove_tags_cleans_text_nodes_witness:
  "strings [] (fst (extract_hashtags div_remove False))
     = [(''p'', Plain, ''Q1 now''), (''p'', Plain, ''two  spaces''), (''style'', Stylesheet, ''#x {}'')]
   \<and> findall_hashtags ''Q1 now'' = [] \<and> \<not> space_run ''Q1 now''
   \<and> findall_hashtags ''two  spaces'' = []"
proof -
  have ev: "map (\<lambda>(q, sc, s).
         if q = ''script'' \<or> q = ''style'' \<or> findall_hashtags s = [] then (q, sc, s)
         else (q, Plain, cleaned_text s))
         (strings [] div_remove)
      = [(''p'', Plain, ''Q1 now''), (''p'', Plain, ''two  spaces''), (''style'', Stylesheet, ''#x {}'')]"
    by code_simp
  have c: "cleaned_text '' Q1   #math  now '' = ''Q1 now''"
    by code_simp
  note inst = remove_tags_cleans_text_nodes[of div_remove]
  have s: "strings [] (fst (extract_hashtags div_remove False))
     = [(''p'', Plain, ''Q1 now''), (''p'', Plain, ''two  spaces''), (''style'', Stylesheet, ''#x {}'')]"
    using conjunct1[OF inst] unfolding ev .
  have cl: "findall_hashtags (cleaned_text '' Q1   #math  now '') = []
      \<and> \<not> space_run (cleaned_text '' Q1   #math  now '')"
    using conjunct1[OF conjunct2[OF inst], rule_format, of "'' Q1   #math  now ''"] by simp
  have all: "\<forall>(q, sc, s) \<in> set (strings [] (fst (extract_hashtags div_remove False))).
          q \<noteq> ''script'' \<and> q \<noteq> ''style'' \<longrightarrow> findall_hashtags s = []"
    by (rule conjunct1[OF conjunct2[OF conjunct2[OF inst]]])
  have "findall_hashtags ''two  spaces'' = []"
    using all unfolding s by simp
  with s cl show ?thesis unfolding c by simp
qed

end
